theory Spec2Isabelle
  imports Complex_Main "HOL-Library.Log_Nat"
begin

section \<open>Floating-point values\<close>

text \<open>
  The tracker computes on numpy float64 arrays. A value is a finite number, one of the two
  infinities, or NaN. Finite arithmetic is taken as exact arithmetic on the reals (rounding,
  overflow and signed zeros are not represented), except for the product in the stability
  check of the constructor, which is rounded as binary64 rounds it because the check is
  decided at the threshold; the special values follow IEEE 754 as
  numpy implements it: NaN propagates through every operation and compares false with
  everything, a division by zero yields an infinity (or NaN for 0/0), and
  \<open>inf - inf\<close>, \<open>0 * inf\<close>, \<open>inf / inf\<close> are NaN.
\<close>

datatype fl = Fin real | PInf | NInf | NaN

datatype error = TypeError | ValueError | RuntimeError | IndexError | KeyError | NameError

definition ebind :: "error + 'a \<Rightarrow> ('a \<Rightarrow> error + 'b) \<Rightarrow> error + 'b" where
  "ebind r f = (case r of Inl e \<Rightarrow> Inl e | Inr a \<Rightarrow> f a)"

fun mapE :: "('a \<Rightarrow> error + 'b) \<Rightarrow> 'a list \<Rightarrow> error + 'b list" where
  "mapE f [] = Inr []"
| "mapE f (a # as) = ebind (f a) (\<lambda>b. ebind (mapE f as) (\<lambda>bs. Inr (b # bs)))"

fun isnan :: "fl \<Rightarrow> bool" where
  "isnan NaN = True"
| "isnan _ = False"

fun isfinite :: "fl \<Rightarrow> bool" where
  "isfinite (Fin _) = True"
| "isfinite _ = False"

fun fadd :: "fl \<Rightarrow> fl \<Rightarrow> fl" where
  "fadd NaN _ = NaN"
| "fadd _ NaN = NaN"
| "fadd (Fin a) (Fin b) = Fin (a + b)"
| "fadd PInf NInf = NaN"
| "fadd NInf PInf = NaN"
| "fadd PInf _ = PInf"
| "fadd NInf _ = NInf"
| "fadd (Fin a) PInf = PInf"
| "fadd (Fin a) NInf = NInf"

text \<open>The sign of a non-NaN value: \<open>1\<close>, \<open>0\<close> or \<open>-1\<close>.\<close>

fun fsgn :: "fl \<Rightarrow> int" where
  "fsgn (Fin a) = (if 0 < a then 1 else if a < 0 then -1 else 0)"
| "fsgn PInf = 1"
| "fsgn NInf = -1"
| "fsgn NaN = 0"

definition signed_inf :: "int \<Rightarrow> fl" where
  "signed_inf s = (if 0 < s then PInf else if s < 0 then NInf else NaN)"

fun fmul :: "fl \<Rightarrow> fl \<Rightarrow> fl" where
  "fmul NaN _ = NaN"
| "fmul _ NaN = NaN"
| "fmul (Fin a) (Fin b) = Fin (a * b)"
| "fmul a b = signed_inf (fsgn a * fsgn b)"

text \<open>
  Division: a finite value over zero is an infinity of the numerator's sign, \<open>0/0\<close> is NaN,
  a finite value over an infinity is zero, an infinity over a finite value keeps the sign
  product (a zero divisor counts as positive), and an infinity over an infinity is NaN.
\<close>

fun fdiv :: "fl \<Rightarrow> fl \<Rightarrow> fl" where
  "fdiv NaN _ = NaN"
| "fdiv _ NaN = NaN"
| "fdiv (Fin a) (Fin b) = (if b = 0 then signed_inf (fsgn (Fin a)) else Fin (a / b))"
| "fdiv (Fin a) _ = Fin 0"
| "fdiv a (Fin b) = signed_inf (fsgn a * (if b < 0 then -1 else 1))"
| "fdiv _ _ = NaN"

fun fsqrt :: "fl \<Rightarrow> fl" where
  "fsqrt (Fin a) = (if a < 0 then NaN else Fin (sqrt a))"
| "fsqrt PInf = PInf"
| "fsqrt NInf = NaN"
| "fsqrt NaN = NaN"

fun fabs :: "fl \<Rightarrow> fl" where
  "fabs (Fin a) = Fin \<bar>a\<bar>"
| "fabs PInf = PInf"
| "fabs NInf = PInf"
| "fabs NaN = NaN"

text \<open>Comparisons \<open>a < b\<close> and \<open>a == b\<close>; both are false when an operand is NaN.\<close>

fun flt :: "fl \<Rightarrow> fl \<Rightarrow> bool" where
  "flt NaN _ = False"
| "flt _ NaN = False"
| "flt (Fin a) (Fin b) = (a < b)"
| "flt PInf _ = False"
| "flt _ PInf = True"
| "flt _ NInf = False"
| "flt NInf _ = True"

definition fgt :: "fl \<Rightarrow> fl \<Rightarrow> bool" where
  "fgt a b = flt b a"

definition feq :: "fl \<Rightarrow> fl \<Rightarrow> bool" where
  "feq a b = (\<not> isnan a \<and> \<not> isnan b \<and> a = b)"

text \<open>\<open>np.maximum\<close> and \<open>np.minimum\<close> return NaN when either operand is NaN.\<close>

definition np_maximum :: "fl \<Rightarrow> fl \<Rightarrow> fl" where
  "np_maximum a b = (if isnan a \<or> isnan b then NaN else if flt a b then b else a)"

definition np_minimum :: "fl \<Rightarrow> fl \<Rightarrow> fl" where
  "np_minimum a b = (if isnan a \<or> isnan b then NaN else if flt b a then b else a)"

text \<open>
  \<open>np.max\<close> and \<open>np.min\<close> over a one-dimensional array; a zero-size array raises
  \<open>ValueError\<close>.
\<close>

fun np_max :: "fl list \<Rightarrow> error + fl" where
  "np_max [] = Inl ValueError"
| "np_max (a # as) = Inr (fold (\<lambda>b acc. np_maximum acc b) as a)"

fun np_min :: "fl list \<Rightarrow> error + fl" where
  "np_min [] = Inl ValueError"
| "np_min (a # as) = Inr (fold (\<lambda>b acc. np_minimum acc b) as a)"

text \<open>\<open>np.clip(a, lo, hi)\<close> is \<open>np.minimum(np.maximum(a, lo), hi)\<close>.\<close>

definition np_clip :: "fl \<Rightarrow> fl \<Rightarrow> fl \<Rightarrow> fl" where
  "np_clip lo hi a = np_minimum (np_maximum a lo) hi"

text \<open>
  \<open>np.nan_to_num(a, nan=0.0)\<close>: NaN becomes the given value; the infinities, whose
  replacement is left at its default, become the largest and the smallest finite double.
\<close>

definition float_max :: real where
  "float_max = (2 - 1 / 2 ^ 52) * 2 ^ 1023"

fun nan_to_num :: "fl \<Rightarrow> fl" where
  "nan_to_num NaN = Fin 0"
| "nan_to_num PInf = Fin float_max"
| "nan_to_num NInf = Fin (- float_max)"
| "nan_to_num (Fin a) = Fin a"

text \<open>Python indexing \<open>a[i]\<close> with a non-negative index.\<close>

definition index :: "'a list \<Rightarrow> nat \<Rightarrow> error + 'a" where
  "index xs i = (if i < length xs then Inr (xs ! i) else Inl IndexError)"

text \<open>
  Column \<open>a[:, i]\<close> of a two-dimensional array held as a list of rows, and the assignment
  \<open>a[:, i] = col\<close>, which needs a column of the array's height (or of one element, which
  is broadcast).
\<close>

definition column :: "nat \<Rightarrow> 'a list list \<Rightarrow> error + 'a list" where
  "column i rows =
     (if list_all (\<lambda>r. i < length r) rows then Inr (map (\<lambda>r. r ! i) rows)
      else Inl IndexError)"

definition set_column :: "nat \<Rightarrow> 'a list \<Rightarrow> 'a list list \<Rightarrow> error + 'a list list" where
  "set_column i col rows =
     (if \<not> list_all (\<lambda>r. i < length r) rows then Inl IndexError
      else if length col = length rows then Inr (map (\<lambda>(r, c). r[i := c]) (zip rows col))
      else if length col = 1 then Inr (map (\<lambda>r. r[i := hd col]) rows)
      else Inl ValueError)"

section \<open>Grids and the tracker\<close>

type_synonym vec = "fl \<times> fl \<times> fl"

record fields6 =
  Ex :: fl
  Ey :: fl
  Ez :: fl
  Bx :: fl
  By :: fl
  Bz :: fl

text \<open>
  A grid is an external collaborator: the tracker reads its resolution, asks whether a
  position lies on it, interpolates the six field components at a position (NaN for a
  position off the grid) with one of two weightings, and reads a named quantity as a
  three-dimensional array (\<open>None\<close> when the grid does not hold the quantity).
\<close>

record grid =
  grid_resolution :: fl
  grid_on_grid :: "vec \<Rightarrow> bool"
  volume_averaged_interpolator :: "vec \<Rightarrow> fields6"
  nearest_neighbor_interpolator :: "vec \<Rightarrow> fields6"
  quantities :: "string \<Rightarrow> fl list list list option"

text \<open>
  The attributes of a \<open>ParticleTracker\<close>. \<open>has_x\<close> stands for
  \<open>hasattr(self, "x")\<close>: the attributes that \<open>load_particles\<close> creates hold
  placeholder values until it is true. \<open>self_dt\<close> is the flattened \<open>dt\<close> array
  (one element for a forced timestep, two for a range). \<open>self_on_grid\<close> holds a
  row per particle and a column per grid, with entries 0 and 1; \<open>self_entered_grid\<close>
  holds whole numbers.
\<close>

record tracker =
  self_grids :: "grid list"
  self_verbose :: bool
  self_has_run :: bool
  has_x :: bool
  self_q :: fl
  self_m :: fl
  self_nparticles :: nat
  self_x :: "vec list"
  self_v :: "vec list"
  self_field_weighting :: string
  self_nparticles_tracked :: nat
  self_dt :: "fl list"
  self_on_grid :: "nat list list"
  self_entered_grid :: "nat list"

definition num_grids :: "tracker \<Rightarrow> nat" where
  "num_grids t = length (self_grids t)"

section \<open>The adaptive timestep\<close>

text \<open>\<open>np.linalg.norm(v, axis=-1)\<close> for one row: the root of the sum of squares.\<close>

fun norm3 :: "vec \<Rightarrow> fl" where
  "norm3 (a, b, c) = fsqrt (fadd (fadd (fmul a a) (fmul b b)) (fmul c c))"

definition vmax :: "tracker \<Rightarrow> error + fl" where
  "vmax t = np_max (map norm3 (self_v t))"

definition gridstep :: "tracker \<Rightarrow> fl \<Rightarrow> fl list" where
  "gridstep t vm =
     map (\<lambda>g. fmul (Fin (1 / 2)) (fdiv (grid_resolution g) vm)) (self_grids t)"

text \<open>
  The loop over the grids: column \<open>i\<close> of the candidates becomes the grid's gridstep
  where the particle is on grid \<open>i\<close> and infinity elsewhere.
\<close>

fun grid_candidates :: "nat list list \<Rightarrow> fl list \<Rightarrow> nat list \<Rightarrow> fl list list \<Rightarrow> error + fl list list" where
  "grid_candidates og gs [] cands = Inr cands"
| "grid_candidates og gs (i # is) cands =
     ebind (column i og) (\<lambda>oc.
     ebind (index gs i) (\<lambda>gsi.
     ebind (set_column i (map (\<lambda>b. if 0 < b then gsi else PInf) oc) cands) (\<lambda>cands'.
     grid_candidates og gs is cands')))"

definition magnitude :: "fields6 \<Rightarrow> fl" where
  "magnitude f =
     fsqrt (fadd (fadd (fmul (Bx f) (Bx f)) (fmul (By f) (By f))) (fmul (Bz f) (Bz f)))"

definition gyroperiod :: "tracker \<Rightarrow> fl \<Rightarrow> fl" where
  "gyroperiod t Bmag =
     (if feq Bmag (Fin 0) then PInf
      else fdiv (fmul (Fin (2 * pi)) (self_m t)) (fmul (self_q t) Bmag))"

definition adaptive_dt :: "tracker \<Rightarrow> fields6 list \<Rightarrow> error + fl list" where
  "adaptive_dt t F =
     (if length (self_dt t) = 1 then Inr (self_dt t)
      else
        let candidates = replicate (self_nparticles_tracked t) (replicate (num_grids t + 1) PInf)
        in ebind (vmax t) (\<lambda>vm.
           let gs = gridstep t vm
           in ebind (grid_candidates (self_on_grid t) gs [0..<num_grids t] candidates) (\<lambda>c1.
              ebind (np_max (map magnitude F)) (\<lambda>Bmag.
              ebind (set_column (num_grids t) [fdiv (gyroperiod t Bmag) (Fin 12)] c1) (\<lambda>c2.
              ebind (index (self_dt t) 0) (\<lambda>lo.
              ebind (index (self_dt t) 1) (\<lambda>hi.
              ebind (mapE np_min (map (map (np_clip lo hi)) c2)) (\<lambda>dt.
              ebind (np_max gs) (\<lambda>mg.
              Inr (map (\<lambda>d. if feq d PInf then mg else d) dt))))))))))"

text \<open>
  The shape invariant of the run loop: \<open>self_on_grid\<close> has a row per tracked particle
  and a column per grid.
\<close>

definition wf_shapes :: "tracker \<Rightarrow> bool" where
  "wf_shapes t =
     (length (self_on_grid t) = self_nparticles_tracked t \<and>
      list_all (\<lambda>r. length r = num_grids t) (self_on_grid t))"

subsection \<open>The timestep of one particle, as the specification words it\<close>

text \<open>
  The candidates of particle \<open>p\<close>: for each grid, half the resolution over the speed
  \<open>vm\<close> when the particle is on the grid and infinity when it is not, followed by a
  twelfth of the gyroperiod. Its timestep is the least clamped candidate, replaced by
  \<open>mg\<close> when that is infinite.
\<close>

definition particle_candidates :: "tracker \<Rightarrow> fl \<Rightarrow> fl \<Rightarrow> nat \<Rightarrow> fl list" where
  "particle_candidates t vm Bmag p =
     map (\<lambda>i. if 0 < self_on_grid t ! p ! i
               then fmul (Fin (1 / 2)) (fdiv (grid_resolution (self_grids t ! i)) vm)
               else PInf) [0..<num_grids t]
     @ [fdiv (gyroperiod t Bmag) (Fin 12)]"

definition min_fl :: "fl list \<Rightarrow> fl" where
  "min_fl cs = fold (\<lambda>b acc. np_minimum acc b) cs PInf"

definition particle_dt :: "tracker \<Rightarrow> fl \<Rightarrow> fl \<Rightarrow> fl \<Rightarrow> nat \<Rightarrow> fl" where
  "particle_dt t vm Bmag mg p =
     (let m = min_fl (map (np_clip (self_dt t ! 0) (self_dt t ! 1)) (particle_candidates t vm Bmag p))
      in if m = PInf then mg else m)"

section \<open>The push\<close>

text \<open>
  The in-place addition \<open>a += b\<close> of one-dimensional arrays: \<open>b\<close> has the length of
  \<open>a\<close>, or one element that is broadcast; any other shape raises \<open>ValueError\<close>.
\<close>

definition iadd :: "('a \<Rightarrow> 'b \<Rightarrow> 'a) \<Rightarrow> 'a list \<Rightarrow> 'b list \<Rightarrow> error + 'a list" where
  "iadd f as bs =
     (if length bs = length as then Inr (map (\<lambda>(a, b). f a b) (zip as bs))
      else if length bs = 1 then Inr (map (\<lambda>a. f a (hd bs)) as)
      else Inl ValueError)"

definition zero6 :: fields6 where
  "zero6 = \<lparr>Ex = Fin 0, Ey = Fin 0, Ez = Fin 0, Bx = Fin 0, By = Fin 0, Bz = Fin 0\<rparr>"

definition nan_to_num6 :: "fields6 \<Rightarrow> fields6" where
  "nan_to_num6 f =
     \<lparr>Ex = nan_to_num (Ex f), Ey = nan_to_num (Ey f), Ez = nan_to_num (Ez f),
      Bx = nan_to_num (Bx f), By = nan_to_num (By f), Bz = nan_to_num (Bz f)\<rparr>"

definition add6 :: "fields6 \<Rightarrow> fields6 \<Rightarrow> fields6" where
  "add6 a b =
     \<lparr>Ex = fadd (Ex a) (Ex b), Ey = fadd (Ey a) (Ey b), Ez = fadd (Ez a) (Ez b),
      Bx = fadd (Bx a) (Bx b), By = fadd (By a) (By b), Bz = fadd (Bz a) (Bz b)\<rparr>"

text \<open>
  The interpolation of one grid at every particle position, with the weighting that
  \<open>run\<close> stored. With any other weighting neither branch of the source assigns the
  interpolated arrays, and reading them raises.
\<close>

definition interpolate :: "tracker \<Rightarrow> grid \<Rightarrow> error + fields6 list" where
  "interpolate t g =
     (if self_field_weighting t = ''volume averaged''
      then Inr (map (volume_averaged_interpolator g) (self_x t))
      else if self_field_weighting t = ''nearest neighbor''
      then Inr (map (nearest_neighbor_interpolator g) (self_x t))
      else Inl NameError)"

text \<open>
  The loop over the grids that sums the fields: each grid's interpolated components pass
  through \<open>nan_to_num\<close> and are then added to the totals.
\<close>

fun sum_fields :: "tracker \<Rightarrow> grid list \<Rightarrow> fields6 list \<Rightarrow> error + fields6 list" where
  "sum_fields t [] tot = Inr tot"
| "sum_fields t (g # gs) tot =
     ebind (interpolate t g) (\<lambda>f.
     ebind (iadd add6 tot (map nan_to_num6 f)) (\<lambda>tot'.
     sum_fields t gs tot'))"

definition E_of :: "fields6 \<Rightarrow> vec" where
  "E_of f = (Ex f, Ey f, Ez f)"

definition B_of :: "fields6 \<Rightarrow> vec" where
  "B_of f = (Bx f, By f, Bz f)"

text \<open>
  \<open>boris_push\<close> lives in another module; the push takes it as a parameter. Its arguments
  are the positions, the velocities, \<open>B\<close>, \<open>E\<close>, the charge, the mass and the timesteps,
  its result the new positions and velocities.
\<close>

type_synonym boris_push =
  "vec list \<Rightarrow> vec list \<Rightarrow> vec list \<Rightarrow> vec list \<Rightarrow> fl \<Rightarrow> fl \<Rightarrow> fl list \<Rightarrow> vec list \<times> vec list"

text \<open>
  The membership array has a row per particle and a column per grid. Without any grid
  the source's array is empty and its row sums are the scalar zero, which is broadcast.
\<close>

definition on_grid_array :: "tracker \<Rightarrow> nat list list" where
  "on_grid_array t =
     (if self_grids t = [] then []
      else map (\<lambda>p. map (\<lambda>g. if grid_on_grid g p then 1 else 0) (self_grids t)) (self_x t))"

definition row_sums :: "tracker \<Rightarrow> nat list list \<Rightarrow> nat list" where
  "row_sums t og = (if self_grids t = [] then [0] else map sum_list og)"

definition push :: "boris_push \<Rightarrow> tracker \<Rightarrow> error + tracker" where
  "push bp t =
     (let og = on_grid_array t
      in ebind (iadd (+) (self_entered_grid t) (row_sums t og)) (\<lambda>eg.
         let t1 = t\<lparr>self_on_grid := og, self_entered_grid := eg\<rparr>
         in ebind (sum_fields t1 (self_grids t1) (replicate (self_nparticles_tracked t1) zero6)) (\<lambda>F.
            ebind (adaptive_dt t1 F) (\<lambda>dt.
            let (x', v') = bp (self_x t1) (self_v t1) (map B_of F) (map E_of F)
                              (self_q t1) (self_m t1) dt
            in Inr (t1\<lparr>self_x := x', self_v := v'\<rparr>)))))"

definition on_any_grid :: "tracker \<Rightarrow> bool list" where
  "on_any_grid t = map (\<lambda>r. 0 < sum_list r) (self_on_grid t)"

text \<open>The stop condition that \<open>ParticleTracker\<close> defines.\<close>

definition stop_condition :: "tracker \<Rightarrow> bool" where
  "stop_condition t = False"

section \<open>Loading particles and running\<close>

definition enforce_order :: "tracker \<Rightarrow> error + unit" where
  "enforce_order t = (if self_has_run t then Inl RuntimeError else Inr ())"

definition load_particles :: "tracker \<Rightarrow> vec list \<Rightarrow> vec list \<Rightarrow> fl \<Rightarrow> fl \<Rightarrow> error + tracker" where
  "load_particles t xs vs charge mass =
     ebind (enforce_order t) (\<lambda>_.
       if length xs \<noteq> length vs then Inl ValueError
       else Inr (t\<lparr>self_q := charge, self_m := mass, self_nparticles := length xs,
                   self_x := xs, self_v := vs, has_x := True\<rparr>))"

definition validate_inputs :: "tracker \<Rightarrow> string \<Rightarrow> error + tracker" where
  "validate_inputs t field_weighting =
     (if field_weighting \<in> set [''volume averaged'', ''nearest neighbor'']
      then (if \<not> has_x t then Inl ValueError
            else Inr (t\<lparr>self_field_weighting := field_weighting\<rparr>))
      else Inl ValueError)"

text \<open>The assignments of \<open>run\<close> between the validation and the loop.\<close>

definition run_init :: "fl list option \<Rightarrow> tracker \<Rightarrow> tracker" where
  "run_init dt t =
     (let n = length (self_x t)
      in t\<lparr>self_nparticles_tracked := n,
           self_dt := (case dt of None \<Rightarrow> [Fin 0, PInf] | Some d \<Rightarrow> d),
           self_on_grid := replicate n (replicate (num_grids t) 0),
           self_entered_grid := replicate n 0\<rparr>)"

text \<open>
  The loop \<open>while not self._stop_condition(): self._push()\<close>. The method is looked up on
  the instance, so the loop takes it as the parameter \<open>stop\<close>; for a plain
  \<open>ParticleTracker\<close> it is \<open>stop_condition\<close>. The loop may run forever: the result
  \<open>None\<close> stands for a call that does not return, \<open>Some (Inl e)\<close> for an exception
  raised by a push. The progress meter is not part of the state.
\<close>

partial_function (option) run_loop :: "(tracker \<Rightarrow> bool) \<Rightarrow> boris_push \<Rightarrow> tracker \<Rightarrow> (error + tracker) option" where
  "run_loop stop bp t =
     (if stop t then Some (Inr t)
      else case push bp t of
             Inl e \<Rightarrow> Some (Inl e)
           | Inr t' \<Rightarrow> run_loop stop bp t')"

definition run :: "(tracker \<Rightarrow> bool) \<Rightarrow> boris_push \<Rightarrow> fl list option \<Rightarrow> string \<Rightarrow> tracker \<Rightarrow> (error + tracker) option" where
  "run stop bp dt field_weighting t =
     (case validate_inputs t field_weighting of
        Inl e \<Rightarrow> Some (Inl e)
      | Inr t1 \<Rightarrow>
          (case run_loop stop bp (run_init dt t1) of
             None \<Rightarrow> None
           | Some (Inl e) \<Rightarrow> Some (Inl e)
           | Some (Inr t2) \<Rightarrow> Some (Inr (t2\<lparr>self_has_run := True\<rparr>))))"

text \<open>The state after \<open>n\<close> passes through the loop body.\<close>

fun pushes :: "boris_push \<Rightarrow> nat \<Rightarrow> tracker \<Rightarrow> error + tracker" where
  "pushes bp 0 t = Inr t"
| "pushes bp (Suc n) t = ebind (push bp t) (pushes bp n)"


section \<open>Construction\<close>

text \<open>
  A field quantity is a three-dimensional array, held as nested lists indexed
  \<open>a ! i ! j ! k\<close>. The six boundary faces are the slices \<open>a[0,:,:]\<close>, \<open>a[-1,:,:]\<close>,
  \<open>a[:,0,:]\<close>, \<open>a[:,-1,:]\<close>, \<open>a[:,:,0]\<close> and \<open>a[:,:,-1]\<close>; slicing an axis of length
  zero at an index raises \<open>IndexError\<close>.
\<close>

type_synonym array3 = "fl list list list"

definition first :: "'a list \<Rightarrow> error + 'a" where
  "first xs = (if xs = [] then Inl IndexError else Inr (hd xs))"

definition final :: "'a list \<Rightarrow> error + 'a" where
  "final xs = (if xs = [] then Inl IndexError else Inr (last xs))"

definition faces :: "array3 \<Rightarrow> error + fl list list list" where
  "faces a =
     ebind (first a) (\<lambda>f0.
     ebind (final a) (\<lambda>f1.
     ebind (mapE first a) (\<lambda>f2.
     ebind (mapE final a) (\<lambda>f3.
     ebind (mapE (mapE first) a) (\<lambda>f4.
     ebind (mapE (mapE final) a) (\<lambda>f5.
     Inr [f0, f1, f2, f3, f4, f5]))))))"

definition edge_max :: "array3 \<Rightarrow> error + fl" where
  "edge_max a =
     ebind (faces a) (\<lambda>fs.
     ebind (mapE (\<lambda>f. np_max (concat f)) fs) (\<lambda>ms.
     np_max ms))"

definition all_finite :: "array3 \<Rightarrow> bool" where
  "all_finite a = list_all (list_all (list_all isfinite)) a"

definition abs3 :: "array3 \<Rightarrow> array3" where
  "abs3 a = map (map (map fabs)) a"

text \<open>
  The threshold of the stability check is the product \<open>1e-3 * np.max(arr)\<close> of two
  doubles, and the comparison is decided by the rounded product. \<open>round64\<close> rounds a
  real number to the nearest binary64 number, ties to the even significand: the
  significand has 53 bits, the unit in the last place is a power of two that is never
  below 2 to the power -1074, and a rounded value beyond the largest double is an
  infinity. \<open>double_1e_3\<close> is the double that the literal \<open>1e-3\<close> denotes.
\<close>

definition round_half_even :: "real \<Rightarrow> int" where
  "round_half_even q =
     (let f = \<lfloor>q\<rfloor>; d = q - of_int f
      in if d < 1 / 2 then f else if 1 / 2 < d then f + 1 else if even f then f else f + 1)"

definition ulp_exponent :: "real \<Rightarrow> int" where
  "ulp_exponent x = max (bitlen \<lfloor>\<bar>x\<bar> * 2 ^ 1074\<rfloor> - 53) 0 - 1074"

definition round64 :: "real \<Rightarrow> fl" where
  "round64 x =
     (let e = ulp_exponent x;
          r = of_int (round_half_even (x / 2 powi e)) * 2 powi e
      in if float_max < \<bar>r\<bar> then (if 0 < x then PInf else NInf) else Fin r)"

definition fmul64 :: "fl \<Rightarrow> fl \<Rightarrow> fl" where
  "fmul64 a b = (case fmul a b of Fin r \<Rightarrow> round64 r | c \<Rightarrow> c)"

definition double_1e_3 :: real where
  "double_1e_3 = 1152921504606847 / 2 ^ 60"

text \<open>
  A stability warning names the quantity and carries the edge maximum. The check of one
  required quantity of one grid: a missing quantity raises \<open>KeyError\<close>, a non-finite
  entry \<open>ValueError\<close>; otherwise a warning is issued when the edge maximum exceeds the
  product of \<open>1e-3\<close> and the maximum of the whole array.
\<close>

type_synonym warning = "string \<times> fl"

definition check_quantity :: "grid \<Rightarrow> string \<Rightarrow> error + warning option" where
  "check_quantity g rq =
     (case quantities g rq of
        None \<Rightarrow> Inl KeyError
      | Some a \<Rightarrow>
          if \<not> all_finite a then Inl ValueError
          else
            let arr = abs3 a
            in ebind (edge_max arr) (\<lambda>em.
               ebind (np_max (concat (concat arr))) (\<lambda>mx.
               Inr (if fgt em (fmul64 (Fin double_1e_3) mx) then Some (rq, em) else None))))"

text \<open>
  The loops return the warnings issued so far together with the outcome: a warning that
  was issued stays issued when a later check raises.
\<close>

fun check_quantities :: "grid \<Rightarrow> string list \<Rightarrow> warning list \<times> (error + unit)" where
  "check_quantities g [] = ([], Inr ())"
| "check_quantities g (rq # rqs) =
     (case check_quantity g rq of
        Inl e \<Rightarrow> ([], Inl e)
      | Inr w \<Rightarrow>
          (let (ws, r) = check_quantities g rqs
           in ((case w of None \<Rightarrow> [] | Some w' \<Rightarrow> [w']) @ ws, r)))"

text \<open>
  \<open>require_quantities\<close> belongs to the grid class, which lives in another module: it is
  the parameter \<open>require_quantities\<close>, which raises or returns the grid with the
  required quantities in place. Iterating over \<open>req_quantities\<close> when it is \<open>None\<close>
  raises \<open>TypeError\<close>.
\<close>

type_synonym require_quantities = "grid \<Rightarrow> string list option \<Rightarrow> error + grid"

fun validate_grids :: "require_quantities \<Rightarrow> string list option \<Rightarrow> grid list \<Rightarrow> warning list \<times> (error + grid list)" where
  "validate_grids rqf req [] = ([], Inr [])"
| "validate_grids rqf req (g # gs) =
     (case rqf g req of
        Inl e \<Rightarrow> ([], Inl e)
      | Inr g' \<Rightarrow>
          (case req of
             None \<Rightarrow> ([], Inl TypeError)
           | Some rqs \<Rightarrow>
               (case check_quantities g' rqs of
                  (ws, Inl e) \<Rightarrow> (ws, Inl e)
                | (ws, Inr _) \<Rightarrow>
                    (case validate_grids rqf req gs of
                       (ws', Inl e) \<Rightarrow> (ws @ ws', Inl e)
                     | (ws', Inr gs') \<Rightarrow> (ws @ ws', Inr (g' # gs'))))))"

text \<open>
  The argument \<open>grids\<close>: one grid; a collection that can be iterated again, such as a
  list or a tuple; an iterator or generator, which yields its grids once; or an object
  that is neither a grid nor iterable.
\<close>

datatype grids_arg = AGrid grid | GridSequence "grid list" | GridIterator "grid list" | Unrecognized

definition new_tracker :: "grid list \<Rightarrow> bool \<Rightarrow> tracker" where
  "new_tracker gs verbose =
     \<lparr>self_grids = gs, self_verbose = verbose, self_has_run = False, has_x = False,
      self_q = Fin 0, self_m = Fin 0, self_nparticles = 0, self_x = [], self_v = [],
      self_field_weighting = [], self_nparticles_tracked = 0, self_dt = [],
      self_on_grid = [], self_entered_grid = []\<rparr>"

text \<open>
  The constructor iterates over \<open>self.grids\<close> twice: first to build \<open>grids_arr\<close>, then
  to validate the grids. An iterator is exhausted by the first pass, so the second pass
  finds no grid: no grid is validated, and the object is constructed with the spent
  iterator as its grids. That object is \<open>SpentIterator\<close> with its \<open>verbose\<close> flag; it
  has no number of grids (\<open>len\<close> of an iterator raises), and the operations on the
  record \<open>tracker\<close> are those of a tracker whose grids are a collection.
\<close>

datatype constructed = Tracker tracker | SpentIterator bool

definition construct :: "require_quantities \<Rightarrow> string list option \<Rightarrow> bool \<Rightarrow> grid list \<Rightarrow> warning list \<times> (error + constructed)" where
  "construct rqf req_quantities verbose gs =
     (case validate_grids rqf req_quantities gs of
        (ws, Inl e) \<Rightarrow> (ws, Inl e)
      | (ws, Inr gs') \<Rightarrow> (ws, Inr (Tracker (new_tracker gs' verbose))))"

definition init :: "require_quantities \<Rightarrow> grids_arg \<Rightarrow> string list option \<Rightarrow> bool \<Rightarrow> warning list \<times> (error + constructed)" where
  "init rqf grids req_quantities verbose =
     (case grids of
        AGrid g \<Rightarrow> construct rqf req_quantities verbose [g]
      | GridSequence gs \<Rightarrow> construct rqf req_quantities verbose gs
      | GridIterator gs \<Rightarrow> ([], Inr (SpentIterator verbose))
      | Unrecognized \<Rightarrow> ([], Inl TypeError))"

section \<open>Stopping and removing particles\<close>

text \<open>Replacing the entries selected by a mask with NaN vectors.\<close>

definition nan_vec :: vec where
  "nan_vec = (NaN, NaN, NaN)"

definition mask_nan :: "bool list \<Rightarrow> vec list \<Rightarrow> vec list" where
  "mask_nan msk us = map (\<lambda>(u, b). if b then nan_vec else u) (zip us msk)"

text \<open>
  Modelled from the spec: \<open>stop_particles\<close> is called by the tests but is not defined
  in the tracker module. The specification says: the mask length must equal the number
  of particles (\<open>ValueError\<close> otherwise); the velocity of the masked particles is set
  to NaN, and their last position is kept.
\<close>

definition stop_particles :: "tracker \<Rightarrow> bool list \<Rightarrow> error + tracker" where
  "stop_particles t msk =
     (if length msk \<noteq> self_nparticles t then Inl ValueError
      else Inr (t\<lparr>self_v := mask_nan msk (self_v t)\<rparr>))"

text \<open>
  Modelled from the spec: \<open>remove_particles\<close> is called by the tests but is not
  defined in the tracker module. The specification says: the mask length must equal the
  number of particles (\<open>ValueError\<close> otherwise); in addition to what
  \<open>stop_particles\<close> does, the position of the masked particles is set to NaN.
\<close>

definition remove_particles :: "tracker \<Rightarrow> bool list \<Rightarrow> error + tracker" where
  "remove_particles t msk =
     (if length msk \<noteq> self_nparticles t then Inl ValueError
      else Inr (t\<lparr>self_x := mask_nan msk (self_x t), self_v := mask_nan msk (self_v t)\<rparr>))"

text \<open>
  Modelled from the spec: the termination condition \<open>NoParticlesOnGrids\<close> is not defined
  in the tracker module. The specification says: stop when zero particles currently
  overlap any grid and at least one particle has ever entered a grid.
\<close>

definition no_particles_on_grids :: "tracker \<Rightarrow> bool" where
  "no_particles_on_grids t =
     (list_all (\<lambda>b. \<not> b) (on_any_grid t) \<and> list_ex (\<lambda>e. 0 < e) (self_entered_grid t))"


section \<open>Example grids and trackers\<close>

text \<open>
  A grid whose domain is the cube of half-width \<open>L\<close> around \<open>(c, 0, 0)\<close>, with
  resolution \<open>ds\<close> and the uniform field \<open>f\<close>; off the grid both interpolators return
  NaN.
\<close>

definition in_box :: "real \<Rightarrow> real \<Rightarrow> vec \<Rightarrow> bool" where
  "in_box c L p =
     (case p of
        (Fin a, Fin b, Fin d) \<Rightarrow> \<bar>a - c\<bar> \<le> L \<and> \<bar>b\<bar> \<le> L \<and> \<bar>d\<bar> \<le> L
      | _ \<Rightarrow> False)"

definition nan6 :: fields6 where
  "nan6 = \<lparr>Ex = NaN, Ey = NaN, Ez = NaN, Bx = NaN, By = NaN, Bz = NaN\<rparr>"

definition box_grid :: "real \<Rightarrow> real \<Rightarrow> real \<Rightarrow> fields6 \<Rightarrow> grid" where
  "box_grid c L ds f =
     \<lparr>grid_resolution = Fin ds, grid_on_grid = in_box c L,
      volume_averaged_interpolator = (\<lambda>p. if in_box c L p then f else nan6),
      nearest_neighbor_interpolator = (\<lambda>p. if in_box c L p then f else nan6),
      quantities = (\<lambda>_. None)\<rparr>"

text \<open>A tracker with the given grids on which the given particles have been loaded.\<close>

definition loaded :: "grid list \<Rightarrow> vec list \<Rightarrow> vec list \<Rightarrow> tracker" where
  "loaded gs xs vs =
     (new_tracker gs True)
       \<lparr>self_q := Fin 1, self_m := Fin 1, self_nparticles := length xs,
        self_x := xs, self_v := vs, has_x := True\<rparr>"

text \<open>
  The state in which the push calls \<open>adaptive_dt\<close>: the run has been initialised with
  the default timestep range and the membership array has been computed.
\<close>

definition in_push :: "tracker \<Rightarrow> tracker" where
  "in_push t = (let t1 = run_init None t in t1\<lparr>self_on_grid := on_grid_array t1\<rparr>)"

definition origin :: vec where
  "origin = (Fin 0, Fin 0, Fin 0)"

definition tracker_at_rest :: tracker where
  "tracker_at_rest = in_push (loaded [box_grid 0 1 1 zero6] [origin] [origin])"


text \<open>
  Two grids of resolutions 2 and 4 and two particles of speed 1: the first particle is on
  the first grid only, the second on no grid.
\<close>

definition two_grids :: tracker where
  "two_grids =
     in_push (loaded [box_grid 0 1 2 zero6, box_grid 10 1 4 zero6]
       [origin, (Fin 5, Fin 0, Fin 0)]
       [(Fin 1, Fin 0, Fin 0), (Fin 1, Fin 0, Fin 0)])"

text \<open>
  The finite grid-resolution candidates of all particles: the candidates of each particle
  without its gyroperiod candidate.
\<close>

definition finite_grid_candidates :: "tracker \<Rightarrow> fl \<Rightarrow> fl \<Rightarrow> fl list" where
  "finite_grid_candidates t vm Bmag =
     filter isfinite
       (concat (map (\<lambda>p. butlast (particle_candidates t vm Bmag p)) [0..<self_nparticles_tracked t]))"


section \<open>Definitions for the statements about the push and the run\<close>

text \<open>The field of grid \<open>g\<close> at position \<open>p\<close> under the tracker's weighting.\<close>

definition field_at :: "tracker \<Rightarrow> grid \<Rightarrow> vec \<Rightarrow> fields6" where
  "field_at t g p =
     (if self_field_weighting t = ''volume averaged'' then volume_averaged_interpolator g p
      else nearest_neighbor_interpolator g p)"




text \<open>
  A push for the examples: every particle drifts with its velocity for its timestep
  (a single timestep is broadcast), which is what the Boris push does in a vanishing
  field; a particle without a velocity or a timestep stays where it is.
\<close>

fun drift :: "vec \<Rightarrow> vec \<Rightarrow> fl \<Rightarrow> vec" where
  "drift (a, b, c) (va, vb, vc) h = (fadd a (fmul va h), fadd b (fmul vb h), fadd c (fmul vc h))"

fun drift_all :: "vec list \<Rightarrow> vec list \<Rightarrow> fl list \<Rightarrow> vec list" where
  "drift_all [] _ _ = []"
| "drift_all (p # ps) (u # us) (h # hs) = drift p u h # drift_all ps us hs"
| "drift_all (p # ps) _ _ = p # drift_all ps [] []"

definition drift_push :: boris_push where
  "drift_push xs vs B E charge mass dt =
     (drift_all xs vs (if length dt = 1 then replicate (length xs) (hd dt) else dt), vs)"

text \<open>
  One particle that starts at the centre of a grid of half-width 1 and leaves it with
  speed 4, run with the forced timestep 1: the state when the loop starts, the states
  after the first and the second push, and the state in which the run ends.
\<close>

definition escaping :: tracker where
  "escaping = loaded [box_grid 0 1 1 zero6] [origin] [(Fin 4, Fin 0, Fin 0)]"

definition escaping_started :: tracker where
  "escaping_started =
     run_init (Some [Fin 1]) (escaping\<lparr>self_field_weighting := ''volume averaged''\<rparr>)"

definition escaping_step1 :: tracker where
  "escaping_step1 =
     escaping_started\<lparr>self_on_grid := [[1]], self_entered_grid := [1],
       self_x := [(Fin 4, Fin 0, Fin 0)]\<rparr>"

definition escaping_step2 :: tracker where
  "escaping_step2 = escaping_step1\<lparr>self_on_grid := [[0]], self_x := [(Fin 8, Fin 0, Fin 0)]\<rparr>"

definition escaped :: tracker where
  "escaped = escaping_step2\<lparr>self_has_run := True\<rparr>"







text \<open>A \<open>require_quantities\<close> that accepts every grid as it is.\<close>

definition accept_grid :: require_quantities where
  "accept_grid g req = Inr g"


section \<open>The stability check, as the specification words it\<close>

text \<open>
  An array is well formed when no axis is empty. Its cells are the index triples in
  range; a cell is on the boundary when one of its indices is the first or the last of
  its axis, and in the interior otherwise.
\<close>

definition wf3 :: "array3 \<Rightarrow> bool" where
  "wf3 a = (a \<noteq> [] \<and> list_all (\<lambda>p. p \<noteq> [] \<and> list_all (\<lambda>r. r \<noteq> []) p) a)"

definition cells :: "array3 \<Rightarrow> (nat \<times> nat \<times> nat) list" where
  "cells a =
     concat (map (\<lambda>i. concat (map (\<lambda>j. map (\<lambda>k. (i, j, k)) [0..<length (a ! i ! j)])
                                  [0..<length (a ! i)]))
                 [0..<length a])"

definition on_edge :: "array3 \<Rightarrow> nat \<times> nat \<times> nat \<Rightarrow> bool" where
  "on_edge a c =
     (case c of (i, j, k) \<Rightarrow>
        i = 0 \<or> Suc i = length a \<or> j = 0 \<or> Suc j = length (a ! i) \<or>
        k = 0 \<or> Suc k = length (a ! i ! j))"

definition value_at :: "array3 \<Rightarrow> nat \<times> nat \<times> nat \<Rightarrow> fl" where
  "value_at a c = (case c of (i, j, k) \<Rightarrow> a ! i ! j ! k)"

definition boundary_values :: "array3 \<Rightarrow> fl list" where
  "boundary_values a = map (value_at a) (filter (on_edge a) (cells a))"

definition interior_values :: "array3 \<Rightarrow> fl list" where
  "interior_values a = map (value_at a) (filter (\<lambda>c. \<not> on_edge a c) (cells a))"

text \<open>The largest of a list of non-negative values, zero when there is none.\<close>

definition greatest :: "fl list \<Rightarrow> fl" where
  "greatest xs = fold (\<lambda>b acc. np_maximum acc b) xs (Fin 0)"

definition boundary_max :: "array3 \<Rightarrow> fl" where
  "boundary_max a = greatest (boundary_values (abs3 a))"

definition interior_max :: "array3 \<Rightarrow> fl" where
  "interior_max a = greatest (interior_values (abs3 a))"

text \<open>
  The warning that the specification asks for: one for a quantity whose largest absolute
  value on the boundary exceeds 0.1% of its interior maximum, the product being the
  rounded product of doubles.
\<close>

definition stability_warning :: "grid \<Rightarrow> string \<Rightarrow> warning list" where
  "stability_warning g rq =
     (case quantities g rq of
        None \<Rightarrow> []
      | Some a \<Rightarrow>
          if fgt (boundary_max a) (fmul64 (Fin double_1e_3) (interior_max a))
          then [(rq, boundary_max a)] else [])"

text \<open>The real number that a finite value holds.\<close>

fun val :: "fl \<Rightarrow> real" where
  "val (Fin r) = r"
| "val _ = 0"

definition nonneg :: "fl \<Rightarrow> bool" where
  "nonneg a = (isfinite a \<and> 0 \<le> val a)"

text \<open>An array of doubles holds no finite value beyond the largest double.\<close>

definition in_range :: "array3 \<Rightarrow> bool" where
  "in_range a = list_all (list_all (list_all (\<lambda>x. \<bar>val x\<bar> \<le> float_max))) a"

text \<open>
  Example quantities on a grid of 3 by 3 by 3 points: one that is 1 at the centre and 0
  on the boundary, one that is 1 everywhere, and one that is NaN everywhere.
\<close>

definition peak_array :: array3 where
  "peak_array =
     [[[Fin 0, Fin 0, Fin 0], [Fin 0, Fin 0, Fin 0], [Fin 0, Fin 0, Fin 0]],
      [[Fin 0, Fin 0, Fin 0], [Fin 0, Fin 1, Fin 0], [Fin 0, Fin 0, Fin 0]],
      [[Fin 0, Fin 0, Fin 0], [Fin 0, Fin 0, Fin 0], [Fin 0, Fin 0, Fin 0]]]"

definition flat_array :: array3 where
  "flat_array =
     [[[Fin 1, Fin 1, Fin 1], [Fin 1, Fin 1, Fin 1], [Fin 1, Fin 1, Fin 1]],
      [[Fin 1, Fin 1, Fin 1], [Fin 1, Fin 1, Fin 1], [Fin 1, Fin 1, Fin 1]],
      [[Fin 1, Fin 1, Fin 1], [Fin 1, Fin 1, Fin 1], [Fin 1, Fin 1, Fin 1]]]"

definition nan_array :: array3 where
  "nan_array =
     [[[NaN, NaN, NaN], [NaN, NaN, NaN], [NaN, NaN, NaN]],
      [[NaN, NaN, NaN], [NaN, NaN, NaN], [NaN, NaN, NaN]],
      [[NaN, NaN, NaN], [NaN, NaN, NaN], [NaN, NaN, NaN]]]"

text \<open>
  A quantity at the threshold: 1 at the centre and the double \<open>1e-3\<close> on the boundary.
\<close>

definition threshold_array :: array3 where
  "threshold_array =
     (let e = Fin double_1e_3
      in [[[e, e, e], [e, e, e], [e, e, e]],
          [[e, e, e], [e, Fin 1, e], [e, e, e]],
          [[e, e, e], [e, e, e], [e, e, e]]])"

definition threshold_grid :: grid where
  "threshold_grid = (box_grid 0 1 1 zero6)\<lparr>quantities := [''E_x'' \<mapsto> threshold_array]\<rparr>"

definition field_grid :: grid where
  "field_grid =
     (box_grid 0 1 1 zero6)
       \<lparr>quantities := [''E_x'' \<mapsto> peak_array, ''B_z'' \<mapsto> flat_array]\<rparr>"

definition nan_grid :: grid where
  "nan_grid = (box_grid 0 1 1 zero6)\<lparr>quantities := [''E_x'' \<mapsto> nan_array]\<rparr>"


section \<open>Properties of the adaptive timestep\<close>


lemma ebind_simps [simp]: "ebind (Inr a) f = f a" "ebind (Inl e) f = Inl e"
  by (simp_all add: ebind_def)

lemma np_minimum_PInf [simp]: "np_minimum PInf a = a"
  by (cases a) (simp_all add: np_minimum_def)

lemma set_column_same_length:
  assumes "\<forall>r\<in>set rows. i < length r" "length col = length rows"
  shows "set_column i col rows = Inr (map (\<lambda>(r, c). r[i := c]) (zip rows col))"
  using assms by (simp add: set_column_def list_all_iff)

lemma set_column_broadcast:
  assumes "\<forall>r\<in>set rows. i < length r"
  shows "set_column i [c] rows = Inr (map (\<lambda>r. r[i := c]) rows)"
proof (cases "length rows = 1")
  case True
  then obtain r where "rows = [r]" by (cases rows) auto
  with assms show ?thesis by (simp add: set_column_def)
next
  case False
  with assms show ?thesis by (simp add: set_column_def list_all_iff)
qed

lemma column_ok:
  assumes "\<forall>r\<in>set rows. i < length r"
  shows "column i rows = Inr (map (\<lambda>r. r ! i) rows)"
  using assms by (simp add: column_def list_all_iff)

lemma grid_candidates_spec:
  assumes "\<forall>r\<in>set og. length r = G" "length og = N" "length gs = G"
    "length cands = N" "\<forall>r\<in>set cands. length r = G + 1" "\<forall>i\<in>set is. i < G"
  shows "\<exists>c. grid_candidates og gs is cands = Inr c \<and> length c = N \<and>
           (\<forall>r\<in>set c. length r = G + 1) \<and>
           (\<forall>p<N. \<forall>j<G + 1. c ! p ! j =
              (if j \<in> set is then (if 0 < og ! p ! j then gs ! j else PInf) else cands ! p ! j))"
  using assms(4-6)
proof (induction "is" arbitrary: cands)
  case Nil
  then show ?case by simp
next
  case (Cons i "is")
  have iG: "i < G" using Cons.prems by simp
  let ?col = "map (\<lambda>b. if 0 < b then gs ! i else PInf) (map (\<lambda>r. r ! i) og)"
  let ?c' = "map (\<lambda>(r, c). r[i := c]) (zip cands ?col)"
  have col: "column i og = Inr (map (\<lambda>r. r ! i) og)"
    using assms(1) iG by (intro column_ok) simp
  have idx: "index gs i = Inr (gs ! i)"
    using assms(3) iG by (simp add: index_def)
  have sc: "set_column i ?col cands = Inr ?c'"
    using Cons.prems assms(2) iG by (intro set_column_same_length) auto
  have step: "grid_candidates og gs (i # is) cands = grid_candidates og gs is ?c'"
    by (simp add: col idx sc del: map_map)
  have len': "length ?c' = N" using Cons.prems assms(2) by simp
  have rows': "\<forall>r\<in>set ?c'. length r = G + 1"
    using Cons.prems by (auto dest!: set_zip_leftD)
  from Cons.IH [OF len' rows'] Cons.prems
  obtain c where c: "grid_candidates og gs is ?c' = Inr c" "length c = N"
    "\<forall>r\<in>set c. length r = G + 1"
    "\<forall>p<N. \<forall>j<G + 1. c ! p ! j =
        (if j \<in> set is then (if 0 < og ! p ! j then gs ! j else PInf) else ?c' ! p ! j)"
    by auto
  have entry: "?c' ! p ! j = (if j = i then (if 0 < og ! p ! i then gs ! i else PInf) else cands ! p ! j)"
    if "p < N" "j < G + 1" for p j
  proof -
    have "length (cands ! p) = G + 1" using Cons.prems that by simp
    then show ?thesis using that Cons.prems assms(2) iG by (simp add: nth_list_update)
  qed
  show ?case
    unfolding step using c entry by auto
qed

lemma feq_PInf [simp]: "feq d PInf \<longleftrightarrow> d = PInf"
  by (cases d) (simp_all add: feq_def)

lemma mapE_all_Inr:
  assumes "\<forall>a\<in>set as. f a = Inr (g a)"
  shows "mapE f as = Inr (map g as)"
  using assms by (induction as) simp_all

lemma np_min_min_fl: "r \<noteq> [] \<Longrightarrow> np_min r = Inr (min_fl r)"
  by (cases r) (simp_all add: min_fl_def)

lemma adaptive_dt_refines:
  assumes dt1: "length (self_dt t) \<noteq> 1" and wf: "wf_shapes t"
    and vm: "vmax t = Inr vm" and Bm: "np_max (map magnitude F) = Inr Bmag"
    and dt2: "2 \<le> length (self_dt t)" and mg: "np_max (gridstep t vm) = Inr mg"
  shows "adaptive_dt t F =
           Inr (map (particle_dt t vm Bmag mg) [0..<self_nparticles_tracked t])"
proof -
  let ?N = "self_nparticles_tracked t" and ?G = "num_grids t"
  let ?gs = "gridstep t vm" and ?og = "self_on_grid t"
  let ?gy = "fdiv (gyroperiod t Bmag) (Fin 12)"
  let ?lo = "self_dt t ! 0" and ?hi = "self_dt t ! 1"
  have og: "\<forall>r\<in>set ?og. length r = ?G" "length ?og = ?N"
    using wf by (simp_all add: wf_shapes_def list_all_iff)
  have gsl: "length ?gs = ?G" by (simp add: gridstep_def num_grids_def)
  let ?c0 = "replicate ?N (replicate (?G + 1) PInf)"
  have "\<exists>c. grid_candidates ?og ?gs [0..<?G] ?c0 = Inr c \<and> length c = ?N \<and>
           (\<forall>r\<in>set c. length r = ?G + 1) \<and>
           (\<forall>p<?N. \<forall>j<?G + 1. c ! p ! j =
              (if j \<in> set [0..<?G] then (if 0 < ?og ! p ! j then ?gs ! j else PInf)
               else ?c0 ! p ! j))"
    by (rule grid_candidates_spec [OF og gsl]) simp_all
  then obtain c1 where c1: "grid_candidates ?og ?gs [0..<?G] ?c0 = Inr c1"
    "length c1 = ?N" "\<forall>r\<in>set c1. length r = ?G + 1"
    and raw: "\<forall>p<?N. \<forall>j<?G + 1. c1 ! p ! j =
              (if j \<in> set [0..<?G] then (if 0 < ?og ! p ! j then ?gs ! j else PInf)
               else ?c0 ! p ! j)"
    by blast
  have c1e: "c1 ! p ! j = (if j < ?G then (if 0 < ?og ! p ! j then ?gs ! j else PInf) else PInf)"
    if "p < ?N" "j < ?G + 1" for p j
  proof -
    have "replicate (?G + 1) PInf ! j = PInf" using that(2) by (intro nth_replicate)
    then have "?c0 ! p ! j = PInf" using that(1) by (simp del: replicate_Suc)
    then show ?thesis using raw that by simp
  qed
  let ?c2 = "map (\<lambda>r. r[?G := ?gy]) c1"
  have sc: "set_column ?G [?gy] c1 = Inr ?c2"
    using c1(3) by (intro set_column_broadcast) simp
  have row: "?c2 ! p = particle_candidates t vm Bmag p" if "p < ?N" for p
  proof (rule nth_equalityI)
    have "c1 ! p \<in> set c1" using that c1(2) by simp
    then have l: "length (c1 ! p) = ?G + 1" using c1(3) by blast
    show "length (?c2 ! p) = length (particle_candidates t vm Bmag p)"
      using that c1(2) l by (simp add: particle_candidates_def)
    fix j assume "j < length (?c2 ! p)"
    then have j: "j < ?G + 1" using that c1(2) l by simp
    show "?c2 ! p ! j = particle_candidates t vm Bmag p ! j"
    proof (cases "j < ?G")
      case True
      then have "?gs ! j = fmul (Fin (1 / 2)) (fdiv (grid_resolution (self_grids t ! j)) vm)"
        by (simp add: gridstep_def num_grids_def)
      then show ?thesis
        using True that c1(2) c1e [OF that j] l j
        by (simp add: particle_candidates_def nth_append)
    next
      case False
      then have "j = ?G" using j by simp
      then show ?thesis
        using that c1(2) l by (simp add: particle_candidates_def nth_append)
    qed
  qed
  have lo: "index (self_dt t) 0 = Inr ?lo" and hi: "index (self_dt t) 1 = Inr ?hi"
    using dt2 by (auto simp add: index_def)
  let ?c3 = "map (map (np_clip ?lo ?hi)) ?c2"
  have mins: "mapE np_min ?c3 = Inr (map min_fl ?c3)"
  proof (rule mapE_all_Inr, rule ballI)
    fix r assume "r \<in> set ?c3"
    then have "r \<noteq> []" using c1(3) by auto
    then show "np_min r = Inr (min_fl r)" by (rule np_min_min_fl)
  qed
  have res: "map (\<lambda>d. if feq d PInf then mg else d) (map min_fl ?c3) =
             map (particle_dt t vm Bmag mg) [0..<?N]"
  proof (rule nth_equalityI)
    show "length (map (\<lambda>d. if feq d PInf then mg else d) (map min_fl ?c3)) =
          length (map (particle_dt t vm Bmag mg) [0..<?N])"
      using c1(2) by simp
    fix p assume "p < length (map (\<lambda>d. if feq d PInf then mg else d) (map min_fl ?c3))"
    then have p: "p < ?N" using c1(2) by simp
    have "?c3 ! p = map (np_clip ?lo ?hi) (?c2 ! p)" using p c1(2) by simp
    then have "?c3 ! p = map (np_clip ?lo ?hi) (particle_candidates t vm Bmag p)"
      using row [OF p] by simp
    then show "map (\<lambda>d. if feq d PInf then mg else d) (map min_fl ?c3) ! p =
               map (particle_dt t vm Bmag mg) [0..<?N] ! p"
      using p c1(2) by (simp add: particle_dt_def Let_def)
  qed
  show ?thesis
    unfolding adaptive_dt_def Let_def
    using dt1 by (simp add: vm c1(1) Bm sc lo hi mins mg res del: map_map One_nat_def feq_PInf)
qed

lemma np_max_const:
  assumes "xs \<noteq> []" "\<forall>a\<in>set xs. a = c" "\<not> isnan c"
  shows "np_max xs = Inr c"
proof -
  have cc: "np_maximum c c = c"
    using assms(3) by (cases c) (simp_all add: np_maximum_def)
  have f: "fold (\<lambda>b acc. np_maximum acc b) ys c = c" if "\<forall>a\<in>set ys. a = c" for ys
    using that by (induction ys) (simp_all add: cc)
  obtain y ys where "xs = y # ys" using assms(1) by (cases xs) auto
  then show ?thesis using assms(2) f [of ys] by simp
qed

lemma min_fl_all_PInf:
  assumes "\<forall>a\<in>set cs. a = PInf"
  shows "min_fl cs = PInf"
  using assms unfolding min_fl_def by (induction cs) simp_all

lemma half_res_over_zero:
  assumes "flt (Fin 0) ds"
  shows "fmul (Fin (1 / 2)) (fdiv ds (Fin 0)) = PInf"
  using assms by (cases ds) (simp_all add: signed_inf_def)

section \<open>The claims about the adaptive timestep\<close>


lemma np_max_nonempty: "xs \<noteq> [] \<Longrightarrow> \<exists>m. np_max xs = Inr m"
  by (cases xs) simp_all

lemmas example_defs = in_push_def run_init_def loaded_def new_tracker_def Let_def
  on_grid_array_def num_grids_def box_grid_def in_box_def origin_def

lemma tracker_at_rest_fields:
  "self_v tracker_at_rest = [(Fin 0, Fin 0, Fin 0)]"
  "self_on_grid tracker_at_rest = [[1]]"
  "self_grids tracker_at_rest = [box_grid 0 1 1 zero6]"
  "self_dt tracker_at_rest = [Fin 0, PInf]"
  "self_nparticles_tracked tracker_at_rest = 1"
  by (simp_all add: tracker_at_rest_def example_defs)


lemma two_grids_fields:
  "self_v two_grids = [(Fin 1, Fin 0, Fin 0), (Fin 1, Fin 0, Fin 0)]"
  "self_on_grid two_grids = [[1, 0], [0, 0]]"
  "self_grids two_grids = [box_grid 0 1 2 zero6, box_grid 10 1 4 zero6]"
  "self_dt two_grids = [Fin 0, PInf]"
  "self_nparticles_tracked two_grids = 2"
  "self_q two_grids = Fin 1" "self_m two_grids = Fin 1"
  by (simp_all add: two_grids_def example_defs)

lemma magnitude_zero6: "magnitude zero6 = Fin 0"
  by (simp add: magnitude_def zero6_def)


lemma vmax_two_grids: "vmax two_grids = Inr (Fin 1)"
  by (simp add: vmax_def two_grids_fields np_maximum_def)


lemma gridstep_two_grids: "gridstep two_grids (Fin 1) = [Fin 1, Fin 2]"
  by (simp add: gridstep_def two_grids_fields box_grid_def)






lemma np_clip_in_range:
  assumes "\<not> isnan a" "\<not> isnan lo" "\<not> isnan hi" "\<not> flt hi lo"
  shows "\<not> flt (np_clip lo hi a) lo \<and> \<not> flt hi (np_clip lo hi a)"
  using assms
  by (cases a; cases lo; cases hi) (auto simp add: np_clip_def np_maximum_def np_minimum_def)

lemma last_particle_candidates:
  "last (particle_candidates t vm Bmag p) = fdiv (gyroperiod t Bmag) (Fin 12)"
  by (simp add: particle_candidates_def)

text \<open>
  Claim C4, as amended. With a timestep range, at least one particle and at least one
  grid, \<open>adaptive_dt\<close> returns for every particle the least of its candidates after
  each was clamped to the range (the grid candidates and a twelfth of the gyroperiod,
  which is infinite when the largest field magnitude is zero); where that minimum is
  infinite it returns instead the largest gridstep over all the grids, whether or not a
  particle is on them.
\<close>
theorem adaptive_dt_per_particle:
  assumes "wf_shapes t" "2 \<le> length (self_dt t)" "self_v t \<noteq> []" "F \<noteq> []"
    "self_grids t \<noteq> []"
  shows "\<exists>vm Bmag mg.
           vmax t = Inr vm \<and> np_max (map magnitude F) = Inr Bmag \<and>
           np_max (gridstep t vm) = Inr mg \<and>
           adaptive_dt t F = Inr (map (particle_dt t vm Bmag mg) [0..<self_nparticles_tracked t]) \<and>
           (Bmag = Fin 0 \<longrightarrow> (\<forall>p. last (particle_candidates t vm Bmag p) = PInf))"
proof -
  obtain vm where vm: "vmax t = Inr vm"
    using np_max_nonempty [of "map norm3 (self_v t)"] assms(3) by (auto simp add: vmax_def)
  obtain Bmag where Bm: "np_max (map magnitude F) = Inr Bmag"
    using np_max_nonempty [of "map magnitude F"] assms(4) by auto
  obtain mg where mg: "np_max (gridstep t vm) = Inr mg"
    using np_max_nonempty [of "gridstep t vm"] assms(5) by (auto simp add: gridstep_def)
  have dt1: "length (self_dt t) \<noteq> 1" using assms(2) by simp
  have res: "adaptive_dt t F = Inr (map (particle_dt t vm Bmag mg) [0..<self_nparticles_tracked t])"
    by (rule adaptive_dt_refines [OF dt1 assms(1) vm Bm assms(2) mg])
  have gy: "Bmag = Fin 0 \<longrightarrow> (\<forall>p. last (particle_candidates t vm Bmag p) = PInf)"
    by (simp add: last_particle_candidates gyroperiod_def feq_def signed_inf_def)
  show ?thesis using vm Bm mg res gy by blast
qed

lemma particle_dt_two_grids:
  "particle_dt two_grids (Fin 1) (Fin 0) (Fin 2) 0 = Fin 1"
  "particle_dt two_grids (Fin 1) (Fin 0) (Fin 2) (Suc 0) = Fin 2"
  by (simp_all add: particle_dt_def particle_candidates_def two_grids_fields num_grids_def box_grid_def
        gyroperiod_def feq_def signed_inf_def np_clip_def np_maximum_def np_minimum_def min_fl_def
        eval_nat_numeral)

text \<open>
  Witness for C4 as amended: on the tracker \<open>two_grids\<close> the timesteps are 1 and 2.
\<close>
theorem adaptive_dt_per_particle_witness:
  "adaptive_dt two_grids [zero6, zero6] = Inr [Fin 1, Fin 2]"
proof -
  have wf: "wf_shapes two_grids"
    by (simp add: wf_shapes_def two_grids_fields num_grids_def)
  have h: "2 \<le> length (self_dt two_grids)" "self_v two_grids \<noteq> []" "[zero6, zero6] \<noteq> []"
    "self_grids two_grids \<noteq> []"
    by (simp_all add: two_grids_fields)
  have mg: "np_max (gridstep two_grids (Fin 1)) = Inr (Fin 2)"
    by (simp add: gridstep_two_grids np_maximum_def)
  have Bm: "np_max (map magnitude [zero6, zero6]) = Inr (Fin 0)"
    by (simp add: magnitude_zero6 np_maximum_def)
  have up: "[0..<self_nparticles_tracked two_grids] = [0, Suc 0]"
    by (simp add: two_grids_fields eval_nat_numeral)
  from adaptive_dt_per_particle [OF wf h]
  obtain vm Bmag mg' where r: "vmax two_grids = Inr vm"
    "np_max (map magnitude [zero6, zero6]) = Inr Bmag"
    "np_max (gridstep two_grids vm) = Inr mg'"
    "adaptive_dt two_grids [zero6, zero6] =
       Inr (map (particle_dt two_grids vm Bmag mg') [0..<self_nparticles_tracked two_grids])"
    by blast
  have "vm = Fin 1" using r(1) vmax_two_grids by simp
  moreover have "Bmag = Fin 0" using r(2) Bm by simp
  moreover have "mg' = Fin 2" using r(3) mg \<open>vm = Fin 1\<close> by simp
  ultimately show ?thesis using r(4) by (simp add: up particle_dt_two_grids)
qed

text \<open>
  Counterexample to C4 as stated. On \<open>two_grids\<close> the second particle is on no grid and
  the field is zero, so its minimum is infinite. The only finite grid-resolution candidate
  of any particle is 1, yet the second particle receives 2, the gridstep of a grid that no
  particle is on.
\<close>
theorem largest_population_candidate_counterexample:
  "adaptive_dt two_grids [zero6, zero6] = Inr [Fin 1, Fin 2] \<and>
   vmax two_grids = Inr (Fin 1) \<and> np_max (map magnitude [zero6, zero6]) = Inr (Fin 0) \<and>
   finite_grid_candidates two_grids (Fin 1) (Fin 0) = [Fin 1]"
proof -
  have a: "adaptive_dt two_grids [zero6, zero6] = Inr [Fin 1, Fin 2]"
    by (simp add: adaptive_dt_def vmax_two_grids gridstep_two_grids two_grids_fields num_grids_def
          column_def index_def set_column_def eval_nat_numeral magnitude_zero6 np_maximum_def
          np_minimum_def np_clip_def gyroperiod_def feq_def signed_inf_def)
  have b: "np_max (map magnitude [zero6, zero6]) = Inr (Fin 0)"
    by (simp add: magnitude_zero6 np_maximum_def)
  have c: "finite_grid_candidates two_grids (Fin 1) (Fin 0) = [Fin 1]"
    by (simp add: finite_grid_candidates_def particle_candidates_def two_grids_fields num_grids_def
          box_grid_def eval_nat_numeral)
  show ?thesis using a b c vmax_two_grids by simp
qed

text \<open>
  Claim C10. When every particle is at rest, the largest field magnitude is zero and the
  timestep range is the default \<open>[0, inf]\<close>, \<open>adaptive_dt\<close> returns an infinite
  timestep for every particle: the gridsteps, which divide a positive resolution by the
  zero speed, are infinite, and so is the value substituted for an infinite minimum.
\<close>
theorem adaptive_dt_zero_speed_infinite:
  assumes wf: "wf_shapes t" and dt: "self_dt t = [Fin 0, PInf]"
    and v: "self_v t \<noteq> []" "\<forall>u\<in>set (self_v t). u = (Fin 0, Fin 0, Fin 0)"
    and B: "np_max (map magnitude F) = Inr (Fin 0)"
    and g: "self_grids t \<noteq> []" "\<forall>g\<in>set (self_grids t). flt (Fin 0) (grid_resolution g)"
  shows "adaptive_dt t F = Inr (replicate (self_nparticles_tracked t) PInf)"
proof -
  have vm: "vmax t = Inr (Fin 0)"
    unfolding vmax_def using v by (intro np_max_const) auto
  have gs: "\<forall>a\<in>set (gridstep t (Fin 0)). a = PInf"
    using g(2) by (auto simp add: gridstep_def half_res_over_zero)
  have mg: "np_max (gridstep t (Fin 0)) = Inr PInf"
    using g(1) gs by (intro np_max_const) (simp_all add: gridstep_def)
  have gy: "fdiv (gyroperiod t (Fin 0)) (Fin 12) = PInf"
    by (simp add: gyroperiod_def feq_def signed_inf_def)
  have pc: "\<forall>a\<in>set (particle_candidates t (Fin 0) (Fin 0) p). a = PInf" for p
    using g(2) by (auto simp add: particle_candidates_def gy half_res_over_zero num_grids_def)
  have clip: "np_clip (Fin 0) PInf PInf = PInf"
    by (simp add: np_clip_def np_maximum_def np_minimum_def)
  have "min_fl (map (np_clip (Fin 0) PInf) (particle_candidates t (Fin 0) (Fin 0) p)) = PInf" for p
    using pc [of p] by (intro min_fl_all_PInf) (auto simp add: clip)
  then have "particle_dt t (Fin 0) (Fin 0) PInf p = PInf" for p
    by (simp add: particle_dt_def Let_def dt)
  then have pd: "particle_dt t (Fin 0) (Fin 0) PInf = (\<lambda>_. PInf)"
    by (intro ext)
  have "adaptive_dt t F =
          Inr (map (particle_dt t (Fin 0) (Fin 0) PInf) [0..<self_nparticles_tracked t])"
    using dt by (intro adaptive_dt_refines [OF _ wf vm B _ mg]) simp_all
  then show ?thesis by (simp add: pd map_replicate_const)
qed

text \<open>
  Witness for C10: one particle at rest on a grid of resolution 1 with a zero field.
\<close>
theorem adaptive_dt_zero_speed_infinite_witness:
  "adaptive_dt tracker_at_rest [zero6] = Inr [PInf]"
proof -
  have wf: "wf_shapes tracker_at_rest"
    by (simp add: wf_shapes_def tracker_at_rest_fields num_grids_def)
  have dt: "self_dt tracker_at_rest = [Fin 0, PInf]"
    by (simp add: tracker_at_rest_fields)
  have v: "self_v tracker_at_rest \<noteq> []"
    "\<forall>u\<in>set (self_v tracker_at_rest). u = (Fin 0, Fin 0, Fin 0)"
    by (simp_all add: tracker_at_rest_fields)
  have B: "np_max (map magnitude [zero6]) = Inr (Fin 0)"
    by (simp add: magnitude_zero6)
  have g: "self_grids tracker_at_rest \<noteq> []"
    "\<forall>g\<in>set (self_grids tracker_at_rest). flt (Fin 0) (grid_resolution g)"
    by (simp_all add: tracker_at_rest_fields box_grid_def)
  show ?thesis
    using adaptive_dt_zero_speed_infinite [OF wf dt v B g]
    by (simp add: tracker_at_rest_fields)
qed

section \<open>The summed fields\<close>

lemma iadd_same_length:
  "length bs = length as \<Longrightarrow> iadd f as bs = Inr (map (\<lambda>(a, b). f a b) (zip as bs))"
  by (simp add: iadd_def)








lemma interpolate_valid:
  assumes "self_field_weighting t \<in> {''volume averaged'', ''nearest neighbor''}"
  shows "interpolate t g = Inr (map (field_at t g) (self_x t))"
  using assms by (auto simp add: interpolate_def field_at_def)

lemma sum_fields_fold:
  assumes "self_field_weighting t \<in> {''volume averaged'', ''nearest neighbor''}"
    and "length tot = length (self_x t)"
  shows "sum_fields t gs tot =
           Inr (map (\<lambda>(a, p). fold (\<lambda>g acc. add6 acc (nan_to_num6 (field_at t g p))) gs a)
                  (zip tot (self_x t)))"
  using assms(2)
proof (induction gs arbitrary: tot)
  case Nil
  then have "map (\<lambda>(a, p). a) (zip tot (self_x t)) = tot"
    by (intro nth_equalityI) simp_all
  then show ?case by simp
next
  case (Cons g gs)
  let ?tot' = "map (\<lambda>(a, b). add6 a b) (zip tot (map nan_to_num6 (map (field_at t g) (self_x t))))"
  have i: "iadd add6 tot (map nan_to_num6 (map (field_at t g) (self_x t))) = Inr ?tot'"
    using Cons.prems by (intro iadd_same_length) simp
  have l: "length ?tot' = length (self_x t)" using Cons.prems by simp
  have "sum_fields t (g # gs) tot = sum_fields t gs ?tot'"
    by (simp add: interpolate_valid [OF assms(1)] i del: map_map)
  also have "\<dots> = Inr (map (\<lambda>(a, p). fold (\<lambda>g acc. add6 acc (nan_to_num6 (field_at t g p))) gs a)
                  (zip ?tot' (self_x t)))"
    by (rule Cons.IH [OF l])
  also have "map (\<lambda>(a, p). fold (\<lambda>g acc. add6 acc (nan_to_num6 (field_at t g p))) gs a)
                  (zip ?tot' (self_x t)) =
        map (\<lambda>(a, p). fold (\<lambda>g acc. add6 acc (nan_to_num6 (field_at t g p))) (g # gs) a)
                  (zip tot (self_x t))"
    using Cons.prems by (intro nth_equalityI) simp_all
  finally show ?case .
qed











section \<open>The counter of entered grids\<close>








lemma pushes_add: "pushes bp (k + j) t = ebind (pushes bp k t) (pushes bp j)"
proof (induction k arbitrary: t)
  case 0
  then show ?case by simp
next
  case (Suc k)
  show ?case by (cases "push bp t") (simp_all add: Suc)
qed





lemma run_init_fields:
  "self_entered_grid (run_init dt t) = replicate (length (self_x t)) 0"
  "self_x (run_init dt t) = self_x t"
  "self_grids (run_init dt t) = self_grids t"
  "self_nparticles_tracked (run_init dt t) = length (self_x t)"
  "self_dt (run_init dt t) = (case dt of None \<Rightarrow> [Fin 0, PInf] | Some d \<Rightarrow> d)"
  "self_on_grid (run_init dt t) = replicate (length (self_x t)) (replicate (num_grids t) 0)"
  "self_v (run_init dt t) = self_v t"
  "self_field_weighting (run_init dt t) = self_field_weighting t"
  "self_has_run (run_init dt t) = self_has_run t"
  by (simp_all add: run_init_def Let_def)







lemma escaping_started_fields:
  "self_grids escaping_started = [box_grid 0 1 1 zero6]"
  "self_x escaping_started = [(Fin 0, Fin 0, Fin 0)]"
  "self_v escaping_started = [(Fin 4, Fin 0, Fin 0)]"
  "self_entered_grid escaping_started = [0]"
  "self_on_grid escaping_started = [[0]]"
  "self_dt escaping_started = [Fin 1]"
  "self_nparticles_tracked escaping_started = 1"
  "self_field_weighting escaping_started = ''volume averaged''"
  "self_q escaping_started = Fin 1" "self_m escaping_started = Fin 1"
  "self_has_run escaping_started = False"
  by (simp_all add: escaping_started_def escaping_def run_init_def loaded_def new_tracker_def
        Let_def origin_def num_grids_def)

lemma push_forced_dt:
  assumes "self_dt t = [h]"
    "self_field_weighting t \<in> {''volume averaged'', ''nearest neighbor''}"
    "self_nparticles_tracked t = length (self_x t)" "length (self_entered_grid t) = length (self_x t)"
    "self_grids t \<noteq> []"
  shows "push bp t =
     (let F = map (\<lambda>p. fold (\<lambda>g acc. add6 acc (nan_to_num6 (field_at t g p))) (self_grids t) zero6) (self_x t);
          r = bp (self_x t) (self_v t) (map B_of F) (map E_of F) (self_q t) (self_m t) [h]
      in Inr (t\<lparr>self_on_grid := on_grid_array t,
                 self_entered_grid := map (\<lambda>(a, b). a + b) (zip (self_entered_grid t) (map sum_list (on_grid_array t))),
                 self_x := fst r, self_v := snd r\<rparr>))"
proof -
  let ?og = "on_grid_array t"
  let ?eg = "map (\<lambda>(a, b). a + b) (zip (self_entered_grid t) (map sum_list ?og))"
  let ?t1 = "t\<lparr>self_on_grid := ?og, self_entered_grid := ?eg\<rparr>"
  have rs: "row_sums t ?og = map sum_list ?og" using assms(5) by (simp add: row_sums_def)
  have "length (map sum_list ?og) = length (self_entered_grid t)"
    using assms(4,5) by (simp add: on_grid_array_def)
  then have eg: "iadd (+) (self_entered_grid t) (row_sums t ?og) = Inr ?eg"
    unfolding rs by (rule iadd_same_length)
  have w: "self_field_weighting ?t1 \<in> {''volume averaged'', ''nearest neighbor''}"
    using assms(2) by simp
  have l: "length (replicate (self_nparticles_tracked ?t1) zero6) = length (self_x ?t1)"
    using assms(3) by simp
  have fa: "field_at ?t1 = field_at t" by (intro ext) (simp add: field_at_def)
  have sf: "sum_fields ?t1 (self_grids ?t1) (replicate (self_nparticles_tracked ?t1) zero6) =
        Inr (map (\<lambda>p. fold (\<lambda>g acc. add6 acc (nan_to_num6 (field_at t g p))) (self_grids t) zero6) (self_x t))"
    unfolding sum_fields_fold [OF w l] using assms(3)
    by (simp add: fa) (intro nth_equalityI, simp_all)
  have ad: "adaptive_dt ?t1 F = Inr [h]" for F
    using assms(1) by (simp add: adaptive_dt_def)
  show ?thesis
    unfolding push_def Let_def eg ebind_simps sf ad
    by (simp add: case_prod_beta)
qed


lemma escaping_step1_fields:
  "self_grids escaping_step1 = [box_grid 0 1 1 zero6]"
  "self_x escaping_step1 = [(Fin 4, Fin 0, Fin 0)]"
  "self_v escaping_step1 = [(Fin 4, Fin 0, Fin 0)]"
  "self_entered_grid escaping_step1 = [1]"
  "self_on_grid escaping_step1 = [[1]]"
  "self_dt escaping_step1 = [Fin 1]"
  "self_nparticles_tracked escaping_step1 = 1"
  "self_field_weighting escaping_step1 = ''volume averaged''"
  "self_q escaping_step1 = Fin 1" "self_m escaping_step1 = Fin 1"
  "self_has_run escaping_step1 = False"
  by (simp_all add: escaping_step1_def escaping_started_fields)

lemma escaping_step2_fields:
  "self_grids escaping_step2 = [box_grid 0 1 1 zero6]"
  "self_x escaping_step2 = [(Fin 8, Fin 0, Fin 0)]"
  "self_v escaping_step2 = [(Fin 4, Fin 0, Fin 0)]"
  "self_entered_grid escaping_step2 = [1]"
  "self_on_grid escaping_step2 = [[0]]"
  "self_dt escaping_step2 = [Fin 1]"
  "self_nparticles_tracked escaping_step2 = 1"
  "self_field_weighting escaping_step2 = ''volume averaged''"
  "self_has_run escaping_step2 = False"
  by (simp_all add: escaping_step2_def escaping_step1_fields)

lemma push_escaping_started: "push drift_push escaping_started = Inr escaping_step1"
proof -
  have "push drift_push escaping_started =
     (let F = map (\<lambda>p. fold (\<lambda>g acc. add6 acc (nan_to_num6 (field_at escaping_started g p)))
                (self_grids escaping_started) zero6) (self_x escaping_started);
          r = drift_push (self_x escaping_started) (self_v escaping_started) (map B_of F) (map E_of F)
                (self_q escaping_started) (self_m escaping_started) [Fin 1]
      in Inr (escaping_started\<lparr>self_on_grid := on_grid_array escaping_started,
                 self_entered_grid := map (\<lambda>(a, b). a + b)
                   (zip (self_entered_grid escaping_started) (map sum_list (on_grid_array escaping_started))),
                 self_x := fst r, self_v := snd r\<rparr>))"
    by (rule push_forced_dt) (simp_all add: escaping_started_fields)
  also have "\<dots> = Inr escaping_step1"
    by (simp add: Let_def escaping_started_fields on_grid_array_def box_grid_def in_box_def
          drift_push_def escaping_step1_def)
  finally show ?thesis .
qed

lemma push_escaping_step1: "push drift_push escaping_step1 = Inr escaping_step2"
proof -
  have "push drift_push escaping_step1 =
     (let F = map (\<lambda>p. fold (\<lambda>g acc. add6 acc (nan_to_num6 (field_at escaping_step1 g p)))
                (self_grids escaping_step1) zero6) (self_x escaping_step1);
          r = drift_push (self_x escaping_step1) (self_v escaping_step1) (map B_of F) (map E_of F)
                (self_q escaping_step1) (self_m escaping_step1) [Fin 1]
      in Inr (escaping_step1\<lparr>self_on_grid := on_grid_array escaping_step1,
                 self_entered_grid := map (\<lambda>(a, b). a + b)
                   (zip (self_entered_grid escaping_step1) (map sum_list (on_grid_array escaping_step1))),
                 self_x := fst r, self_v := snd r\<rparr>))"
    by (rule push_forced_dt) (simp_all add: escaping_step1_fields)
  also have "\<dots> = Inr escaping_step2"
    by (simp add: Let_def escaping_step1_fields on_grid_array_def box_grid_def in_box_def
          drift_push_def escaping_step2_def escaping_step1_def escaping_started_fields)
  finally show ?thesis .
qed


lemma length_drift_all: "length (drift_all ps us hs) = length ps"
  by (induction ps us hs rule: drift_all.induct) simp_all

lemma drift_push_shape: "length (fst (drift_push xs vs B E c m h)) = length xs"
  by (simp add: drift_push_def length_drift_all)

lemma pushes_escaping:
  "pushes drift_push 0 escaping_started = Inr escaping_started"
  "pushes drift_push 1 escaping_started = Inr escaping_step1"
  "pushes drift_push 2 escaping_started = Inr escaping_step2"
proof -
  show "pushes drift_push 0 escaping_started = Inr escaping_started" by simp
  have "pushes drift_push (Suc 0) escaping_started = Inr escaping_step1"
    unfolding pushes.simps push_escaping_started by simp
  then show "pushes drift_push 1 escaping_started = Inr escaping_step1" by simp
  have "pushes drift_push (Suc (Suc 0)) escaping_started = Inr escaping_step2"
    unfolding pushes.simps push_escaping_started ebind_simps push_escaping_step1 by simp
  then show "pushes drift_push 2 escaping_started = Inr escaping_step2"
    by (simp add: eval_nat_numeral)
qed










section \<open>The run loop\<close>

lemma run_loop_sound:
  assumes "run_loop stop bp t = Some r"
  shows "(\<forall>t'. r = Inr t' \<longrightarrow>
            (\<exists>n. pushes bp n t = Inr t' \<and> stop t' \<and>
                 (\<forall>k<n. \<forall>tk. pushes bp k t = Inr tk \<longrightarrow> \<not> stop tk))) \<and>
         (\<forall>e. r = Inl e \<longrightarrow>
            (\<exists>n tn. pushes bp n t = Inr tn \<and> push bp tn = Inl e \<and>
                 (\<forall>k\<le>n. \<forall>tk. pushes bp k t = Inr tk \<longrightarrow> \<not> stop tk)))"
proof (rule run_loop.raw_induct [OF _ assms], goal_cases)
  case (1 loop stop bp t r)
  show ?case
  proof (cases "stop t")
    case True
    then have "r = Inr t" using 1(2) by simp
    moreover have "pushes bp 0 t = Inr t" by simp
    ultimately show ?thesis using True by (metis not_less_zero sum.inject(2) Inl_Inr_False)
  next
    case False
    show ?thesis
    proof (cases "push bp t")
      case (Inl e)
      then have r: "r = Inl e" using 1(2) False by simp
      have "pushes bp 0 t = Inr t \<and> push bp t = Inl e \<and>
            (\<forall>k\<le>0. \<forall>tk. pushes bp k t = Inr tk \<longrightarrow> \<not> stop tk)"
        using Inl False by simp
      then show ?thesis using r by blast
    next
      case (Inr t1)
      then have l: "loop stop bp t1 = Some r" using 1(2) False by simp
      note ih = 1(1) [OF l]
      have shift: "pushes bp (Suc k) t = pushes bp k t1" for k using Inr by simp
      show ?thesis
      proof (intro conjI allI impI)
        fix t' assume "r = Inr t'"
        then obtain n where n: "pushes bp n t1 = Inr t'" "stop t'"
          "\<forall>k<n. \<forall>tk. pushes bp k t1 = Inr tk \<longrightarrow> \<not> stop tk"
          using ih by blast
        have "\<forall>k<Suc n. \<forall>tk. pushes bp k t = Inr tk \<longrightarrow> \<not> stop tk"
        proof (intro allI impI)
          fix k tk assume k: "k < Suc n" "pushes bp k t = Inr tk"
          show "\<not> stop tk"
          proof (cases k)
            case 0
            then show ?thesis using k False by simp
          next
            case (Suc j)
            then show ?thesis using k n(3) shift by simp
          qed
        qed
        moreover have "pushes bp (Suc n) t = Inr t'" using n(1) shift by simp
        ultimately show "\<exists>n. pushes bp n t = Inr t' \<and> stop t' \<and>
                 (\<forall>k<n. \<forall>tk. pushes bp k t = Inr tk \<longrightarrow> \<not> stop tk)"
          using n(2) by blast
      next
        fix e assume "r = Inl e"
        then obtain n tn where n: "pushes bp n t1 = Inr tn" "push bp tn = Inl e"
          "\<forall>k\<le>n. \<forall>tk. pushes bp k t1 = Inr tk \<longrightarrow> \<not> stop tk"
          using ih by blast
        have "\<forall>k\<le>Suc n. \<forall>tk. pushes bp k t = Inr tk \<longrightarrow> \<not> stop tk"
        proof (intro allI impI)
          fix k tk assume k: "k \<le> Suc n" "pushes bp k t = Inr tk"
          show "\<not> stop tk"
          proof (cases k)
            case 0
            then show ?thesis using k False by simp
          next
            case (Suc j)
            then show ?thesis using k n(3) shift by simp
          qed
        qed
        moreover have "pushes bp (Suc n) t = Inr tn" using n(1) shift by simp
        ultimately show "\<exists>n tn. pushes bp n t = Inr tn \<and> push bp tn = Inl e \<and>
                 (\<forall>k\<le>n. \<forall>tk. pushes bp k t = Inr tk \<longrightarrow> \<not> stop tk)"
          using n(2) by blast
      qed
    qed
  qed
qed

lemma run_loop_complete:
  assumes "pushes bp n t = Inr t'" "stop t'"
    "\<forall>k<n. \<forall>tk. pushes bp k t = Inr tk \<longrightarrow> \<not> stop tk"
  shows "run_loop stop bp t = Some (Inr t')"
  using assms
proof (induction n arbitrary: t)
  case 0
  then show ?case by (simp add: run_loop.simps)
next
  case (Suc n)
  have ns: "\<not> stop t" using Suc.prems(3) by auto
  obtain t1 where t1: "push bp t = Inr t1" "pushes bp n t1 = Inr t'"
    using Suc.prems(1) by (cases "push bp t") simp_all
  have "\<forall>k<n. \<forall>tk. pushes bp k t1 = Inr tk \<longrightarrow> \<not> stop tk"
  proof (intro allI impI)
    fix k tk assume "k < n" "pushes bp k t1 = Inr tk"
    then have "Suc k < Suc n" "pushes bp (Suc k) t = Inr tk" using t1(1) by simp_all
    then show "\<not> stop tk" using Suc.prems(3) by blast
  qed
  then have "run_loop stop bp t1 = Some (Inr t')" using Suc.IH t1(2) Suc.prems(2) by blast
  then show ?case using ns t1(1) by (subst run_loop.simps) simp
qed

lemma run_loop_returns_iff:
  "run_loop stop bp t = Some (Inr t') \<longleftrightarrow>
     (\<exists>n. pushes bp n t = Inr t' \<and> stop t' \<and>
          (\<forall>k<n. \<forall>tk. pushes bp k t = Inr tk \<longrightarrow> \<not> stop tk))"
  using run_loop_sound [of stop bp t "Inr t'"] run_loop_complete [of bp _ t t' stop] by blast


lemma validate_inputs_loaded:
  assumes "has_x t" "fw \<in> {''volume averaged'', ''nearest neighbor''}"
  shows "validate_inputs t fw = Inr (t\<lparr>self_field_weighting := fw\<rparr>)"
  using assms by (auto simp add: validate_inputs_def)

lemma run_loaded:
  assumes "has_x t" "fw \<in> {''volume averaged'', ''nearest neighbor''}"
  shows "run stop bp dt fw t =
           (case run_loop stop bp (run_init dt (t\<lparr>self_field_weighting := fw\<rparr>)) of
              None \<Rightarrow> None
            | Some (Inl e) \<Rightarrow> Some (Inl e)
            | Some (Inr t2) \<Rightarrow> Some (Inr (t2\<lparr>self_has_run := True\<rparr>)))"
  by (simp add: run_def validate_inputs_loaded [OF assms])

text \<open>
  The loop follows the stop condition that is bound to the instance: on a tracker with
  loaded particles and a valid weighting, \<open>run\<close> returns normally exactly when that
  condition becomes true after finitely many pushes, at the first state in which it
  holds, and it returns that state marked as run.
\<close>
lemma run_returns_iff_stop:
  assumes "has_x t" "fw \<in> {''volume averaged'', ''nearest neighbor''}"
  shows "run stop bp dt fw t = Some (Inr t') \<longleftrightarrow>
           (\<exists>n tn. pushes bp n (run_init dt (t\<lparr>self_field_weighting := fw\<rparr>)) = Inr tn \<and>
                  stop tn \<and>
                  (\<forall>k<n. \<forall>tk. pushes bp k (run_init dt (t\<lparr>self_field_weighting := fw\<rparr>)) = Inr tk
                     \<longrightarrow> \<not> stop tk) \<and>
                  t' = tn\<lparr>self_has_run := True\<rparr>)"
proof -
  let ?t0 = "run_init dt (t\<lparr>self_field_weighting := fw\<rparr>)"
  have "run stop bp dt fw t = Some (Inr t') \<longleftrightarrow>
        (\<exists>tn. run_loop stop bp ?t0 = Some (Inr tn) \<and> t' = tn\<lparr>self_has_run := True\<rparr>)"
    unfolding run_loaded [OF assms]
    by (auto split: option.splits sum.splits)
  then show ?thesis unfolding run_loop_returns_iff by blast
qed

text \<open>
  The stop condition that \<open>ParticleTracker\<close> defines is constantly false, so on a
  plain tracker the loop never exits and \<open>run\<close> never returns normally.
\<close>
lemma plain_tracker_never_returns:
  "run stop_condition bp dt fw t \<noteq> Some (Inr t')"
proof
  assume a: "run stop_condition bp dt fw t = Some (Inr t')"
  then obtain t1 tn where "run_loop stop_condition bp (run_init dt t1) = Some (Inr tn)"
    by (auto simp add: run_def split: sum.splits option.splits)
  then show False by (simp add: run_loop_returns_iff stop_condition_def)
qed

lemma stop_escaping:
  "\<not> no_particles_on_grids escaping_started" "\<not> no_particles_on_grids escaping_step1"
  "no_particles_on_grids escaping_step2"
  by (simp_all add: no_particles_on_grids_def on_any_grid_def escaping_started_fields
        escaping_step1_fields escaping_step2_fields)

lemma escaping_loop_condition:
  "\<forall>k<2. \<forall>tk. pushes drift_push k escaping_started = Inr tk \<longrightarrow> \<not> no_particles_on_grids tk"
proof (intro allI impI)
  fix k tk assume k: "k < (2::nat)" "pushes drift_push k escaping_started = Inr tk"
  then have "k = 0 \<or> k = 1" by auto
  then show "\<not> no_particles_on_grids tk"
    using k(2) pushes_escaping(1,2) stop_escaping(1,2) by auto
qed

lemma has_x_escaping: "has_x escaping"
  by (simp add: escaping_def loaded_def)

lemma forced_push_succeeds:
  assumes shape: "\<And>xs vs B E c m dt. length (fst (bp xs vs B E c m dt)) = length xs"
    and inv: "self_dt t = [h]"
      "self_field_weighting t \<in> {''volume averaged'', ''nearest neighbor''}"
      "self_nparticles_tracked t = length (self_x t)"
      "length (self_entered_grid t) = length (self_x t)" "self_grids t \<noteq> []"
  shows "\<exists>t'. push bp t = Inr t' \<and> self_dt t' = [h] \<and>
           self_field_weighting t' \<in> {''volume averaged'', ''nearest neighbor''} \<and>
           self_nparticles_tracked t' = length (self_x t') \<and>
           length (self_entered_grid t') = length (self_x t') \<and> self_grids t' \<noteq> []"
proof -
  have "length (on_grid_array t) = length (self_x t)"
    using inv(5) by (simp add: on_grid_array_def)
  then show ?thesis
    unfolding push_forced_dt [OF inv] Let_def using inv shape by simp
qed

lemma forced_pushes_succeed:
  assumes shape: "\<And>xs vs B E c m dt. length (fst (bp xs vs B E c m dt)) = length xs"
    and inv: "self_dt t = [h]"
      "self_field_weighting t \<in> {''volume averaged'', ''nearest neighbor''}"
      "self_nparticles_tracked t = length (self_x t)"
      "length (self_entered_grid t) = length (self_x t)" "self_grids t \<noteq> []"
  shows "\<exists>tn. pushes bp n t = Inr tn \<and> self_dt tn = [h] \<and>
           self_field_weighting tn \<in> {''volume averaged'', ''nearest neighbor''} \<and>
           self_nparticles_tracked tn = length (self_x tn) \<and>
           length (self_entered_grid tn) = length (self_x tn) \<and> self_grids tn \<noteq> []"
  using inv
proof (induction n arbitrary: t)
  case 0
  then show ?case by simp
next
  case (Suc n)
  from forced_push_succeeds [where bp = bp, OF shape Suc.prems]
  obtain t' where t': "push bp t = Inr t'" "self_dt t' = [h]"
    "self_field_weighting t' \<in> {''volume averaged'', ''nearest neighbor''}"
    "self_nparticles_tracked t' = length (self_x t')"
    "length (self_entered_grid t') = length (self_x t')" "self_grids t' \<noteq> []"
    by blast
  from Suc.IH [OF t'(2-6)] show ?case by (simp add: t'(1))
qed

lemma run_loop_never_stops:
  assumes "\<And>n. \<exists>tn. pushes bp n t = Inr tn"
  shows "run_loop stop_condition bp t = None"
proof (rule ccontr)
  assume "run_loop stop_condition bp t \<noteq> None"
  then obtain r where r: "run_loop stop_condition bp t = Some r" by auto
  show False
  proof (cases r)
    case (Inr t')
    then show False using run_loop_sound [OF r] by (auto simp add: stop_condition_def)
  next
    case (Inl e)
    then obtain n tn where n: "pushes bp n t = Inr tn" "push bp tn = Inl e"
      using run_loop_sound [OF r] by blast
    have "pushes bp (n + 1) t = ebind (pushes bp n t) (pushes bp 1)" by (rule pushes_add)
    then have "pushes bp (Suc n) t = Inl e" using n by simp
    then show False using assms [of "Suc n"] by auto
  qed
qed

text \<open>
  With a forced timestep, at least one grid and a push that keeps the number of
  particles, no push raises; a plain tracker then never leaves the loop.
\<close>

lemma forced_dt_run_never_returns:
  assumes shape: "\<And>xs vs B E c m dt. length (fst (bp xs vs B E c m dt)) = length xs"
    and "has_x t" "fw \<in> {''volume averaged'', ''nearest neighbor''}" "self_grids t \<noteq> []"
  shows "run stop_condition bp (Some [h]) fw t = None"
proof -
  let ?t0 = "run_init (Some [h]) (t\<lparr>self_field_weighting := fw\<rparr>)"
  have inv: "self_dt ?t0 = [h]"
    "self_field_weighting ?t0 \<in> {''volume averaged'', ''nearest neighbor''}"
    "self_nparticles_tracked ?t0 = length (self_x ?t0)"
    "length (self_entered_grid ?t0) = length (self_x ?t0)" "self_grids ?t0 \<noteq> []"
    using assms(3,4) by (simp_all add: run_init_fields)
  have "\<exists>tn. pushes bp n ?t0 = Inr tn" for n
    using forced_pushes_succeed [where bp = bp and n = n, OF shape inv] by blast
  then have "run_loop stop_condition bp ?t0 = None" by (rule run_loop_never_stops)
  then show ?thesis by (simp add: run_loaded [OF assms(2,3)])
qed

text \<open>
  Claim C1 fails on the code. In the run of \<open>escaping\<close> with the timestep 1 the state
  after the second push has no particle on any grid and a particle that has entered one,
  so the termination condition \<open>no_particles_on_grids\<close> holds there. The stop condition
  of \<open>ParticleTracker\<close> is constantly false all the same: the loop does not exit and
  \<open>run\<close> does not return.
\<close>
theorem run_does_not_return:
  "pushes drift_push 2 escaping_started = Inr escaping_step2 \<and>
   no_particles_on_grids escaping_step2 \<and>
   list_all (\<lambda>b. \<not> b) (on_any_grid escaping_step2) \<and>
   run stop_condition drift_push (Some [Fin 1]) ''volume averaged'' escaping = None"
proof -
  have g: "self_grids escaping \<noteq> []"
    by (simp add: escaping_def loaded_def new_tracker_def)
  have "run stop_condition drift_push (Some [Fin 1]) ''volume averaged'' escaping = None"
    by (rule forced_dt_run_never_returns [where bp = drift_push, OF drift_push_shape has_x_escaping _ g]) simp
  moreover have "list_all (\<lambda>b. \<not> b) (on_any_grid escaping_step2)"
    by (simp add: on_any_grid_def escaping_step2_fields)
  ultimately show ?thesis using pushes_escaping(3) stop_escaping(3) by simp
qed

lemma ebind_Inl_cases:
  assumes "ebind r f = Inl e"
  shows "r = Inl e \<or> (\<exists>a. r = Inr a \<and> f a = Inl e)"
  using assms by (cases r) simp_all

lemma np_max_error: "np_max xs = Inl e \<Longrightarrow> e = ValueError"
  by (cases xs) simp_all

lemma np_min_error: "np_min xs = Inl e \<Longrightarrow> e = ValueError"
  by (cases xs) simp_all

lemma index_error: "index xs i = Inl e \<Longrightarrow> e = IndexError"
  by (simp add: index_def split: if_splits)

lemma column_error: "column i rows = Inl e \<Longrightarrow> e = IndexError"
  by (simp add: column_def split: if_splits)

lemma set_column_error: "set_column i col rows = Inl e \<Longrightarrow> e = IndexError \<or> e = ValueError"
  by (simp add: set_column_def split: if_splits)

lemma iadd_error: "iadd f as bs = Inl e \<Longrightarrow> e = ValueError"
  by (simp add: iadd_def split: if_splits)

lemma interpolate_error: "interpolate t g = Inl e \<Longrightarrow> e = NameError"
  by (simp add: interpolate_def split: if_splits)

lemma mapE_error:
  assumes "mapE f as = Inl e"
  shows "\<exists>a\<in>set as. f a = Inl e"
  using assms
proof (induction as)
  case Nil
  then show ?case by simp
next
  case (Cons a as)
  then show ?case by (cases "f a"; cases "mapE f as") simp_all
qed

lemma grid_candidates_error:
  "grid_candidates og gs is cands = Inl e \<Longrightarrow> e = IndexError \<or> e = ValueError"
proof (induction "is" arbitrary: cands)
  case Nil
  then show ?case by simp
next
  case (Cons i "is")
  then show ?case
    by (auto dest!: ebind_Inl_cases dest: column_error index_error set_column_error)
qed

lemma sum_fields_error:
  "sum_fields t gs tot = Inl e \<Longrightarrow> e = NameError \<or> e = ValueError"
proof (induction gs arbitrary: tot)
  case Nil
  then show ?case by simp
next
  case (Cons g gs)
  then show ?case
    by (auto dest!: ebind_Inl_cases dest: interpolate_error iadd_error)
qed

lemma adaptive_dt_error:
  assumes "adaptive_dt t F = Inl e"
  shows "e = IndexError \<or> e = ValueError"
proof (cases "length (self_dt t) = 1")
  case True
  then show ?thesis using assms by (simp add: adaptive_dt_def)
next
  case False
  then show ?thesis
    using assms unfolding adaptive_dt_def Let_def vmax_def
    by (auto dest!: ebind_Inl_cases mapE_error
          dest: np_max_error np_min_error index_error set_column_error grid_candidates_error)
qed

lemma push_error:
  assumes "push bp t = Inl e"
  shows "e = IndexError \<or> e = ValueError \<or> e = NameError"
  using assms unfolding push_def Let_def
  by (auto dest!: ebind_Inl_cases dest: iadd_error sum_fields_error adaptive_dt_error
        simp add: case_prod_beta)

text \<open>No call of \<open>run\<close> raises \<open>RuntimeError\<close>, whatever the state of the tracker.\<close>
lemma run_never_RuntimeError:
  "run stop bp dt fw t \<noteq> Some (Inl RuntimeError)"
proof
  assume a: "run stop bp dt fw t = Some (Inl RuntimeError)"
  show False
  proof (cases "validate_inputs t fw")
    case (Inl e)
    then have "e = ValueError" by (simp add: validate_inputs_def split: if_splits)
    then show False using a Inl by (simp add: run_def)
  next
    case (Inr t1)
    then have "run_loop stop bp (run_init dt t1) = Some (Inl RuntimeError)"
      using a by (simp add: run_def split: option.splits sum.splits)
    then obtain tn where "push bp tn = Inl RuntimeError"
      using run_loop_sound by blast
    then show False using push_error by blast
  qed
qed

section \<open>Stopping particles, and construction without required quantities\<close>

lemma mask_nan_nth:
  assumes "length msk = length us" "i < length us"
  shows "mask_nan msk us ! i = (if msk ! i then nan_vec else us ! i)"
  using assms by (simp add: mask_nan_def)

text \<open>
  Claim C5, on the operations as the specification describes them. With a mask of the
  length of the particle count, \<open>stop_particles\<close> sets the velocity of every masked
  particle to NaN and leaves all positions as they are, and \<open>remove_particles\<close> sets
  the velocity and the position of every masked particle to NaN; with a mask of any
  other length both raise \<open>ValueError\<close>.
\<close>
theorem stop_and_remove_particles:
  assumes "length (self_x t) = self_nparticles t" "length (self_v t) = self_nparticles t"
  shows "(length msk = self_nparticles t \<longrightarrow>
            (\<exists>t1 t2. stop_particles t msk = Inr t1 \<and> remove_particles t msk = Inr t2 \<and>
               self_x t1 = self_x t \<and>
               (\<forall>i<self_nparticles t.
                  self_v t1 ! i = (if msk ! i then nan_vec else self_v t ! i) \<and>
                  self_v t2 ! i = (if msk ! i then nan_vec else self_v t ! i) \<and>
                  self_x t2 ! i = (if msk ! i then nan_vec else self_x t ! i)))) \<and>
         (length msk \<noteq> self_nparticles t \<longrightarrow>
            stop_particles t msk = Inl ValueError \<and> remove_particles t msk = Inl ValueError)"
  using assms by (simp add: stop_particles_def remove_particles_def mask_nan_nth)

text \<open>
  Witness for C5: one particle and the mask \<open>[True]\<close>, then the mask \<open>[True, True]\<close>.
\<close>
theorem stop_and_remove_particles_witness:
  "stop_particles escaped [True] = Inr (escaped\<lparr>self_v := [nan_vec]\<rparr>) \<and>
   remove_particles escaped [True] = Inr (escaped\<lparr>self_x := [nan_vec], self_v := [nan_vec]\<rparr>) \<and>
   self_x escaped = [(Fin 8, Fin 0, Fin 0)] \<and>
   stop_particles escaped [True, True] = Inl ValueError \<and>
   remove_particles escaped [True, True] = Inl ValueError"
proof -
  have f: "self_x escaped = [(Fin 8, Fin 0, Fin 0)]" "self_v escaped = [(Fin 4, Fin 0, Fin 0)]"
    "self_nparticles escaped = 1"
    by (simp_all add: escaped_def escaping_step2_fields escaping_step2_def escaping_step1_def
          escaping_started_def run_init_def Let_def escaping_def loaded_def new_tracker_def)
  have l: "length (self_x escaped) = self_nparticles escaped"
    "length (self_v escaped) = self_nparticles escaped"
    by (simp_all add: f)
  have a: "stop_particles escaped [True, True] = Inl ValueError \<and>
           remove_particles escaped [True, True] = Inl ValueError"
    using stop_and_remove_particles [OF l, of "[True, True]"] by (simp add: f)
  obtain t1 t2 where t: "stop_particles escaped [True] = Inr t1"
    "remove_particles escaped [True] = Inr t2"
    using stop_and_remove_particles [OF l, of "[True]"] by (auto simp add: f)
  have "t1 = escaped\<lparr>self_v := [nan_vec]\<rparr>"
    using t(1) by (simp add: stop_particles_def mask_nan_def f)
  moreover have "t2 = escaped\<lparr>self_x := [nan_vec], self_v := [nan_vec]\<rparr>"
    using t(2) by (simp add: remove_particles_def mask_nan_def f)
  ultimately show ?thesis using t a f(1) by simp
qed

lemma validate_grids_None:
  "validate_grids rqf None (g # gs) =
     (case rqf g None of Inl e \<Rightarrow> ([], Inl e) | Inr g' \<Rightarrow> ([], Inl TypeError))"
  by (simp split: sum.splits)

text \<open>
  Claim C8, as amended. When \<open>req_quantities\<close> is left at \<open>None\<close> and \<open>grids\<close> is one
  grid or a collection with at least one grid, construction raises and no tracker is
  constructed: if \<open>require_quantities\<close> returns normally for the first grid, iterating
  over \<open>None\<close> raises \<open>TypeError\<close>, and otherwise the error of \<open>require_quantities\<close>
  propagates. With an empty collection the loop body never runs and construction
  completes.
\<close>
theorem init_without_req_quantities:
  assumes "grids = AGrid g \<or> (\<exists>gs. grids = GridSequence (g # gs))"
  shows "(\<exists>e. init rqf grids None verbose = ([], Inl e)) \<and>
         (\<forall>g'. rqf g None = Inr g' \<longrightarrow> init rqf grids None verbose = ([], Inl TypeError)) \<and>
         (\<forall>e. rqf g None = Inl e \<longrightarrow> init rqf grids None verbose = ([], Inl e)) \<and>
         init rqf (GridSequence []) None verbose = ([], Inr (Tracker (new_tracker [] verbose)))"
  using assms by (auto simp add: init_def construct_def validate_grids_None split: sum.splits)

text \<open>
  Witness for C8 as amended: a single grid and a list of two grids, with a
  \<open>require_quantities\<close> that accepts every grid.
\<close>
theorem init_without_req_quantities_witness:
  "accept_grid (box_grid 0 1 1 zero6) None = Inr (box_grid 0 1 1 zero6) \<and>
   init accept_grid (AGrid (box_grid 0 1 1 zero6)) None True = ([], Inl TypeError) \<and>
   init accept_grid (GridSequence [box_grid 0 1 1 zero6, box_grid 10 1 1 zero6]) None True
     = ([], Inl TypeError)"
proof -
  have a: "accept_grid (box_grid 0 1 1 zero6) None = Inr (box_grid 0 1 1 zero6)"
    by (simp add: accept_grid_def)
  have "AGrid (box_grid 0 1 1 zero6) = AGrid (box_grid 0 1 1 zero6) \<or>
        (\<exists>gs. AGrid (box_grid 0 1 1 zero6) = GridSequence (box_grid 0 1 1 zero6 # gs))"
    by simp
  from init_without_req_quantities [OF this, of accept_grid True]
  have b: "init accept_grid (AGrid (box_grid 0 1 1 zero6)) None True = ([], Inl TypeError)"
    using a by blast
  have "GridSequence [box_grid 0 1 1 zero6, box_grid 10 1 1 zero6] = AGrid (box_grid 0 1 1 zero6) \<or>
        (\<exists>gs. GridSequence [box_grid 0 1 1 zero6, box_grid 10 1 1 zero6]
                = GridSequence (box_grid 0 1 1 zero6 # gs))"
    by simp
  from init_without_req_quantities [OF this, of accept_grid True]
  have c: "init accept_grid (GridSequence [box_grid 0 1 1 zero6, box_grid 10 1 1 zero6]) None True
             = ([], Inl TypeError)"
    using a by blast
  show ?thesis using a b c by simp
qed

text \<open>
  Counterexample to C8 as stated. \<open>require_quantities\<close> returns normally for every
  grid, \<open>req_quantities\<close> is \<open>None\<close>, and construction completes: with an empty list
  of grids, and with an iterator over one grid, which the first pass exhausts.
\<close>
theorem construction_without_req_quantities_counterexample:
  "init accept_grid (GridSequence []) None True = ([], Inr (Tracker (new_tracker [] True))) \<and>
   accept_grid (box_grid 0 1 1 zero6) None = Inr (box_grid 0 1 1 zero6) \<and>
   init accept_grid (GridIterator [box_grid 0 1 1 zero6]) None True
     = ([], Inr (SpentIterator True))"
  by (simp add: init_def construct_def accept_grid_def)

section \<open>The stability warning\<close>

lemma nonneg_Fin: "nonneg a \<Longrightarrow> \<exists>r\<ge>0. a = Fin r"
  by (cases a) (simp_all add: nonneg_def)

lemma fold_maximum_val:
  assumes "\<forall>a\<in>set xs. nonneg a"
  shows "fold (\<lambda>b acc. np_maximum acc b) xs (Fin m) = Fin (Max (insert m (val ` set xs)))"
  using assms
proof (induction xs arbitrary: m)
  case Nil
  then show ?case by simp
next
  case (Cons a xs)
  then obtain r where r: "a = Fin r" using nonneg_Fin by auto
  have "np_maximum (Fin m) a = Fin (max m r)"
    by (simp add: r np_maximum_def max_def)
  then have "fold (\<lambda>b acc. np_maximum acc b) (a # xs) (Fin m) =
             Fin (Max (insert (max m r) (val ` set xs)))"
    using Cons by simp
  also have "Max (insert (max m r) (val ` set xs)) = Max (insert m (val ` set (a # xs)))"
  proof -
    show ?thesis
      by (cases "val ` set xs = {}") (simp_all add: r max.assoc)
  qed
  finally show ?case .
qed

lemma greatest_val:
  assumes "\<forall>a\<in>set xs. nonneg a"
  shows "greatest xs = Fin (Max (insert 0 (val ` set xs)))"
  unfolding greatest_def by (rule fold_maximum_val [OF assms])

lemma np_max_greatest:
  assumes "xs \<noteq> []" "\<forall>a\<in>set xs. nonneg a"
  shows "np_max xs = Inr (greatest xs)"
proof -
  obtain a as where xs: "xs = a # as" using assms(1) by (cases xs) auto
  obtain r where r: "a = Fin r" "0 \<le> r" using assms(2) xs nonneg_Fin by auto
  have "np_maximum (Fin 0) a = a" using r by (auto simp add: np_maximum_def)
  then show ?thesis by (simp add: xs greatest_def)
qed

lemma nonneg_greatest:
  assumes "\<forall>a\<in>set xs. nonneg a"
  shows "nonneg (greatest xs)" "val (greatest xs) = Max (insert 0 (val ` set xs))"
  by (simp_all add: greatest_val [OF assms] nonneg_def)

lemma greatest_cong_set:
  assumes "\<forall>a\<in>set xs. nonneg a" "set ys = set xs"
  shows "greatest ys = greatest xs"
  using assms by (simp add: greatest_val)

lemma Max0_Un:
  assumes "finite A" "finite B"
  shows "Max (insert 0 (A \<union> B)) = max (Max (insert (0::real) A)) (Max (insert 0 B))"
proof -
  have e: "insert 0 (A \<union> B) = insert 0 A \<union> insert 0 B" by auto
  have "Max (insert 0 A \<union> insert 0 B) = max (Max (insert 0 A)) (Max (insert 0 B))"
    using assms by (intro Max_Un) simp_all
  then show ?thesis unfolding e .
qed

lemma greatest_append:
  assumes "\<forall>a\<in>set xs. nonneg a" "\<forall>a\<in>set ys. nonneg a"
  shows "val (greatest (xs @ ys)) = max (val (greatest xs)) (val (greatest ys))"
proof -
  have "\<forall>a\<in>set (xs @ ys). nonneg a" using assms by auto
  then show ?thesis
    using assms by (simp add: nonneg_greatest(2) image_Un Max0_Un)
qed

lemma greatest_concat:
  assumes "\<forall>l\<in>set ls. \<forall>a\<in>set l. nonneg a"
  shows "greatest (map greatest ls) = greatest (concat ls)"
  using assms
proof (induction ls)
  case Nil
  then show ?case by simp
next
  case (Cons l ls)
  have n1: "\<forall>a\<in>set (map greatest (l # ls)). nonneg a"
    using Cons.prems by (auto intro: nonneg_greatest(1))
  have n2: "\<forall>a\<in>set (concat (l # ls)). nonneg a" using Cons.prems by auto
  have n3: "\<forall>a\<in>set (map greatest ls). nonneg a"
    using Cons.prems by (auto intro: nonneg_greatest(1))
  have n4: "\<forall>a\<in>set (concat ls). nonneg a" using Cons.prems by auto
  have n5: "\<forall>a\<in>set l. nonneg a" using Cons.prems by auto
  have ih: "greatest (map greatest ls) = greatest (concat ls)" using Cons by simp
  have "val (greatest (map greatest (l # ls))) = max (val (greatest l)) (val (greatest (map greatest ls)))"
    using greatest_append [of "[greatest l]" "map greatest ls"] n3 nonneg_greatest [OF n5]
    by (simp add: nonneg_greatest(2) [of "[greatest l]"])
  also have "\<dots> = val (greatest (concat (l # ls)))"
    using greatest_append [OF n5 n4] ih by simp
  finally have "val (greatest (map greatest (l # ls))) = val (greatest (concat (l # ls)))" .
  then show ?case
    using greatest_val [OF n1] greatest_val [OF n2] by simp
qed


lemma in_concat_nth:
  "x \<in> set (concat p) \<longleftrightarrow> (\<exists>j k. j < length p \<and> k < length (p ! j) \<and> x = p ! j ! k)"
proof
  assume "x \<in> set (concat p)"
  then obtain r where r: "r \<in> set p" "x \<in> set r" by auto
  then obtain j k where "j < length p" "r = p ! j" "k < length r" "x = r ! k"
    by (metis in_set_conv_nth)
  then show "\<exists>j k. j < length p \<and> k < length (p ! j) \<and> x = p ! j ! k" by blast
next
  assume "\<exists>j k. j < length p \<and> k < length (p ! j) \<and> x = p ! j ! k"
  then obtain j k where h: "j < length p" "k < length (p ! j)" "x = p ! j ! k" by blast
  then have "p ! j \<in> set p" "x \<in> set (p ! j)" by simp_all
  then show "x \<in> set (concat p)" by auto
qed

lemma in_concat_map_upt:
  "j < n \<Longrightarrow> x \<in> set (f j) \<Longrightarrow> x \<in> set (concat (map f [0..<n]))"
  by auto

lemma set_cells:
  "(i, j, k) \<in> set (cells a) \<longleftrightarrow> i < length a \<and> j < length (a ! i) \<and> k < length (a ! i ! j)"
proof
  assume "(i, j, k) \<in> set (cells a)"
  then show "i < length a \<and> j < length (a ! i) \<and> k < length (a ! i ! j)"
    by (auto simp add: cells_def)
next
  assume h: "i < length a \<and> j < length (a ! i) \<and> k < length (a ! i ! j)"
  then have "(i, j, k) \<in> set (map (\<lambda>k. (i, j, k)) [0..<length (a ! i ! j)])" by simp
  then have "(i, j, k) \<in> set (concat (map (\<lambda>j. map (\<lambda>k. (i, j, k)) [0..<length (a ! i ! j)])
                                  [0..<length (a ! i)]))"
    using h by (intro in_concat_map_upt [of j]) simp_all
  then have "(i, j, k) \<in> set (concat (map
      (\<lambda>i. concat (map (\<lambda>j. map (\<lambda>k. (i, j, k)) [0..<length (a ! i ! j)]) [0..<length (a ! i)]))
      [0..<length a]))"
    using h
    by (intro in_concat_map_upt [of i "length a" "(i, j, k)"
          "\<lambda>i. concat (map (\<lambda>j. map (\<lambda>k. (i, j, k)) [0..<length (a ! i ! j)]) [0..<length (a ! i)])"])
       simp_all
  then show "(i, j, k) \<in> set (cells a)" by (simp only: cells_def)
qed

lemma in_all_values:
  "x \<in> set (concat (concat a)) \<longleftrightarrow>
     (\<exists>i j k. i < length a \<and> j < length (a ! i) \<and> k < length (a ! i ! j) \<and> x = a ! i ! j ! k)"
proof
  assume "x \<in> set (concat (concat a))"
  then obtain r where r: "r \<in> set (concat a)" "x \<in> set r" by auto
  then obtain i j where ij: "i < length a" "j < length (a ! i)" "r = a ! i ! j"
    using in_concat_nth [of r a] by blast
  obtain k where "k < length r" "x = r ! k" using r(2) by (auto simp add: in_set_conv_nth)
  then show "\<exists>i j k. i < length a \<and> j < length (a ! i) \<and> k < length (a ! i ! j) \<and> x = a ! i ! j ! k"
    using ij by blast
next
  assume "\<exists>i j k. i < length a \<and> j < length (a ! i) \<and> k < length (a ! i ! j) \<and> x = a ! i ! j ! k"
  then obtain i j k where h: "i < length a" "j < length (a ! i)" "k < length (a ! i ! j)"
    "x = a ! i ! j ! k" by blast
  then have "a ! i ! j \<in> set (concat a)" using in_concat_nth [of "a ! i ! j" a] by blast
  moreover have "x \<in> set (a ! i ! j)" using h by simp
  ultimately show "x \<in> set (concat (concat a))" by auto
qed

lemma in_values_of_cells:
  "x \<in> set (map (value_at a) (filter P (cells a))) \<longleftrightarrow>
     (\<exists>i j k. i < length a \<and> j < length (a ! i) \<and> k < length (a ! i ! j) \<and> P (i, j, k) \<and>
        x = a ! i ! j ! k)"
proof
  assume "x \<in> set (map (value_at a) (filter P (cells a)))"
  then obtain c where c: "c \<in> set (cells a)" "P c" "x = value_at a c" by auto
  obtain i j k where "c = (i, j, k)" by (cases c) auto
  then show "\<exists>i j k. i < length a \<and> j < length (a ! i) \<and> k < length (a ! i ! j) \<and> P (i, j, k) \<and>
        x = a ! i ! j ! k"
    using c by (auto simp add: set_cells value_at_def)
next
  assume "\<exists>i j k. i < length a \<and> j < length (a ! i) \<and> k < length (a ! i ! j) \<and> P (i, j, k) \<and>
        x = a ! i ! j ! k"
  then obtain i j k where h: "i < length a" "j < length (a ! i)" "k < length (a ! i ! j)"
    "P (i, j, k)" "x = a ! i ! j ! k" by blast
  then have "(i, j, k) \<in> set (filter P (cells a))" by (simp add: set_cells)
  moreover have "x = value_at a (i, j, k)" using h by (simp add: value_at_def)
  ultimately show "x \<in> set (map (value_at a) (filter P (cells a)))" by auto
qed

lemma all_values_split:
  "set (concat (concat a)) = set (boundary_values a) \<union> set (interior_values a)"
proof (intro set_eqI)
  fix x
  show "x \<in> set (concat (concat a)) \<longleftrightarrow> x \<in> set (boundary_values a) \<union> set (interior_values a)"
    unfolding Un_iff boundary_values_def interior_values_def in_values_of_cells in_all_values
    by blast
qed


lemma wf3_nth:
  assumes "wf3 a"
  shows "a \<noteq> []" "i < length a \<Longrightarrow> a ! i \<noteq> []"
    "i < length a \<Longrightarrow> j < length (a ! i) \<Longrightarrow> a ! i ! j \<noteq> []"
  using assms by (auto simp add: wf3_def list_all_length)

lemma faces_wf3:
  assumes "wf3 a"
  shows "faces a = Inr [hd a, last a, map hd a, map last a, map (map hd) a, map (map last) a]"
proof -
  have p: "\<forall>p\<in>set a. p \<noteq> []" and r: "\<forall>p\<in>set a. \<forall>r\<in>set p. r \<noteq> []"
    using assms by (auto simp add: wf3_def list_all_iff)
  have 1: "first a = Inr (hd a)" "final a = Inr (last a)"
    using wf3_nth(1) [OF assms] by (simp_all add: first_def final_def)
  have 2: "mapE first a = Inr (map hd a)" "mapE final a = Inr (map last a)"
    using p by (auto intro!: mapE_all_Inr simp add: first_def final_def)
  have 3: "mapE first q = Inr (map hd q)" "mapE final q = Inr (map last q)" if "q \<in> set a" for q
    using r that by (auto intro!: mapE_all_Inr simp add: first_def final_def)
  have 4: "mapE (mapE first) a = Inr (map (map hd) a)" "mapE (mapE final) a = Inr (map (map last) a)"
    by (rule mapE_all_Inr, rule ballI, erule 3(1)) (rule mapE_all_Inr, rule ballI, erule 3(2))
  show ?thesis by (simp add: faces_def 1 2 4)
qed

lemma in_boundary_values:
  "x \<in> set (boundary_values a) \<longleftrightarrow>
     (\<exists>i j k. i < length a \<and> j < length (a ! i) \<and> k < length (a ! i ! j) \<and>
        (i = 0 \<or> Suc i = length a \<or> j = 0 \<or> Suc j = length (a ! i) \<or>
         k = 0 \<or> Suc k = length (a ! i ! j)) \<and> x = a ! i ! j ! k)"
  unfolding boundary_values_def in_values_of_cells by (simp add: on_edge_def)

lemma in_concat_map:
  "x \<in> set (concat (map f a)) \<longleftrightarrow>
     (\<exists>i k. i < length a \<and> k < length (f (a ! i)) \<and> x = f (a ! i) ! k)"
proof
  assume "x \<in> set (concat (map f a))"
  then obtain i k where "i < length (map f a)" "k < length (map f a ! i)" "x = map f a ! i ! k"
    unfolding in_concat_nth by blast
  then have "i < length a \<and> k < length (f (a ! i)) \<and> x = f (a ! i) ! k" by simp
  then show "\<exists>i k. i < length a \<and> k < length (f (a ! i)) \<and> x = f (a ! i) ! k" by blast
next
  assume "\<exists>i k. i < length a \<and> k < length (f (a ! i)) \<and> x = f (a ! i) ! k"
  then obtain i k where "i < length a" "k < length (f (a ! i))" "x = f (a ! i) ! k" by blast
  then have "i < length (map f a) \<and> k < length (map f a ! i) \<and> x = map f a ! i ! k" by simp
  then show "x \<in> set (concat (map f a))" unfolding in_concat_nth by blast
qed

lemma face_members:
  assumes "wf3 a"
  shows "x \<in> set (concat (hd a)) \<longleftrightarrow>
           (\<exists>j k. j < length (a ! 0) \<and> k < length (a ! 0 ! j) \<and> x = a ! 0 ! j ! k)"
    and "x \<in> set (concat (last a)) \<longleftrightarrow>
           (\<exists>j k. j < length (a ! (length a - 1)) \<and> k < length (a ! (length a - 1) ! j) \<and>
              x = a ! (length a - 1) ! j ! k)"
    and "x \<in> set (concat (map hd a)) \<longleftrightarrow>
           (\<exists>i k. i < length a \<and> k < length (a ! i ! 0) \<and> x = a ! i ! 0 ! k)"
    and "x \<in> set (concat (map last a)) \<longleftrightarrow>
           (\<exists>i k. i < length a \<and> k < length (a ! i ! (length (a ! i) - 1)) \<and>
              x = a ! i ! (length (a ! i) - 1) ! k)"
    and "x \<in> set (concat (map (map hd) a)) \<longleftrightarrow>
           (\<exists>i j. i < length a \<and> j < length (a ! i) \<and> x = a ! i ! j ! 0)"
    and "x \<in> set (concat (map (map last) a)) \<longleftrightarrow>
           (\<exists>i j. i < length a \<and> j < length (a ! i) \<and> x = a ! i ! j ! (length (a ! i ! j) - 1))"
proof -
  note w = wf3_nth [OF assms]
  show "x \<in> set (concat (hd a)) \<longleftrightarrow>
           (\<exists>j k. j < length (a ! 0) \<and> k < length (a ! 0 ! j) \<and> x = a ! 0 ! j ! k)"
    using w(1) by (subst in_concat_nth) (simp add: hd_conv_nth)
  show "x \<in> set (concat (last a)) \<longleftrightarrow>
           (\<exists>j k. j < length (a ! (length a - 1)) \<and> k < length (a ! (length a - 1) ! j) \<and>
              x = a ! (length a - 1) ! j ! k)"
    using w(1) by (subst in_concat_nth) (simp add: last_conv_nth)
  show "x \<in> set (concat (map hd a)) \<longleftrightarrow>
           (\<exists>i k. i < length a \<and> k < length (a ! i ! 0) \<and> x = a ! i ! 0 ! k)"
    using w(2) by (subst in_concat_map) (simp add: hd_conv_nth cong: conj_cong)
  show "x \<in> set (concat (map last a)) \<longleftrightarrow>
           (\<exists>i k. i < length a \<and> k < length (a ! i ! (length (a ! i) - 1)) \<and>
              x = a ! i ! (length (a ! i) - 1) ! k)"
    using w(2) by (subst in_concat_map) (simp add: last_conv_nth cong: conj_cong)
  show "x \<in> set (concat (map (map hd) a)) \<longleftrightarrow>
           (\<exists>i j. i < length a \<and> j < length (a ! i) \<and> x = a ! i ! j ! 0)"
  proof
    assume "x \<in> set (concat (map (map hd) a))"
    then obtain i j where "i < length a" "j < length (a ! i)" "x = hd (a ! i ! j)"
      unfolding in_concat_nth by auto
    then show "\<exists>i j. i < length a \<and> j < length (a ! i) \<and> x = a ! i ! j ! 0"
      using w(3) by (auto simp add: hd_conv_nth)
  next
    assume "\<exists>i j. i < length a \<and> j < length (a ! i) \<and> x = a ! i ! j ! 0"
    then obtain i j where h: "i < length a" "j < length (a ! i)" "x = a ! i ! j ! 0" by blast
    then have "x = map (map hd) a ! i ! j" using w(3) by (simp add: hd_conv_nth)
    then show "x \<in> set (concat (map (map hd) a))"
      using h unfolding in_concat_nth by (intro exI [of _ i] exI [of _ j]) simp
  qed
  show "x \<in> set (concat (map (map last) a)) \<longleftrightarrow>
           (\<exists>i j. i < length a \<and> j < length (a ! i) \<and> x = a ! i ! j ! (length (a ! i ! j) - 1))"
  proof
    assume "x \<in> set (concat (map (map last) a))"
    then obtain i j where "i < length a" "j < length (a ! i)" "x = last (a ! i ! j)"
      unfolding in_concat_nth by auto
    then show "\<exists>i j. i < length a \<and> j < length (a ! i) \<and> x = a ! i ! j ! (length (a ! i ! j) - 1)"
      using w(3) by (auto simp add: last_conv_nth)
  next
    assume "\<exists>i j. i < length a \<and> j < length (a ! i) \<and> x = a ! i ! j ! (length (a ! i ! j) - 1)"
    then obtain i j where h: "i < length a" "j < length (a ! i)"
      "x = a ! i ! j ! (length (a ! i ! j) - 1)" by blast
    then have "x = map (map last) a ! i ! j" using w(3) by (simp add: last_conv_nth)
    then show "x \<in> set (concat (map (map last) a))"
      using h unfolding in_concat_nth by (intro exI [of _ i] exI [of _ j]) simp
  qed
qed


lemma in_six_lists:
  "x \<in> set (concat (map concat [A, B, C, D, E, F])) \<longleftrightarrow>
     x \<in> set (concat A) \<or> x \<in> set (concat B) \<or> x \<in> set (concat C) \<or>
     x \<in> set (concat D) \<or> x \<in> set (concat E) \<or> x \<in> set (concat F)"
  by (simp del: set_concat)

lemma faces_boundary_set:
  assumes "wf3 a"
  shows "set (concat (map concat [hd a, last a, map hd a, map last a, map (map hd) a, map (map last) a]))
         = set (boundary_values a)"
proof (intro set_eqI iffI)
  note w = wf3_nth [OF assms]
  note fm = face_members [OF assms]
  have la: "0 < length a" using w(1) by simp
  fix x
  assume "x \<in> set (concat (map concat [hd a, last a, map hd a, map last a, map (map hd) a, map (map last) a]))"
  then consider "x \<in> set (concat (hd a))" | "x \<in> set (concat (last a))"
    | "x \<in> set (concat (map hd a))" | "x \<in> set (concat (map last a))"
    | "x \<in> set (concat (map (map hd) a))" | "x \<in> set (concat (map (map last) a))"
    unfolding in_six_lists by blast
  then show "x \<in> set (boundary_values a)"
  proof cases
    case 1
    then obtain j k where "j < length (a ! 0)" "k < length (a ! 0 ! j)" "x = a ! 0 ! j ! k"
      unfolding fm by blast
    then show ?thesis unfolding in_boundary_values using la by blast
  next
    case 2
    then obtain j k where h: "j < length (a ! (length a - 1))" "k < length (a ! (length a - 1) ! j)"
      "x = a ! (length a - 1) ! j ! k"
      unfolding fm by blast
    have "length a - 1 < length a" "Suc (length a - 1) = length a" using la by simp_all
    then show ?thesis unfolding in_boundary_values using h by blast
  next
    case 3
    then obtain i k where h: "i < length a" "k < length (a ! i ! 0)" "x = a ! i ! 0 ! k"
      unfolding fm by blast
    have "0 < length (a ! i)" using w(2) h(1) by simp
    then show ?thesis unfolding in_boundary_values using h by blast
  next
    case 4
    then obtain i k where h: "i < length a" "k < length (a ! i ! (length (a ! i) - 1))"
      "x = a ! i ! (length (a ! i) - 1) ! k"
      unfolding fm by blast
    have "0 < length (a ! i)" using w(2) h(1) by simp
    then have "length (a ! i) - 1 < length (a ! i)" "Suc (length (a ! i) - 1) = length (a ! i)"
      by simp_all
    then show ?thesis unfolding in_boundary_values using h by blast
  next
    case 5
    then obtain i j where h: "i < length a" "j < length (a ! i)" "x = a ! i ! j ! 0"
      unfolding fm by blast
    have "0 < length (a ! i ! j)" using w(3) h(1,2) by simp
    then show ?thesis unfolding in_boundary_values using h by blast
  next
    case 6
    then obtain i j where h: "i < length a" "j < length (a ! i)"
      "x = a ! i ! j ! (length (a ! i ! j) - 1)"
      unfolding fm by blast
    have "0 < length (a ! i ! j)" using w(3) h(1,2) by simp
    then have "length (a ! i ! j) - 1 < length (a ! i ! j)"
      "Suc (length (a ! i ! j) - 1) = length (a ! i ! j)"
      by simp_all
    then show ?thesis unfolding in_boundary_values using h by blast
  qed
next
  note fm = face_members [OF assms]
  fix x
  assume "x \<in> set (boundary_values a)"
  then obtain i j k where h: "i < length a" "j < length (a ! i)" "k < length (a ! i ! j)"
    "x = a ! i ! j ! k"
    and e: "i = 0 \<or> Suc i = length a \<or> j = 0 \<or> Suc j = length (a ! i) \<or>
         k = 0 \<or> Suc k = length (a ! i ! j)"
    unfolding in_boundary_values by blast
  from e consider "i = 0" | "i = length a - 1" | "j = 0" | "j = length (a ! i) - 1"
    | "k = 0" | "k = length (a ! i ! j) - 1"
    by fastforce
  then have "x \<in> set (concat (hd a)) \<or> x \<in> set (concat (last a)) \<or>
        x \<in> set (concat (map hd a)) \<or> x \<in> set (concat (map last a)) \<or>
        x \<in> set (concat (map (map hd) a)) \<or> x \<in> set (concat (map (map last) a))"
  proof cases
    case 1
    then show ?thesis unfolding fm using h by blast
  next
    case 2
    then show ?thesis unfolding fm using h by blast
  next
    case 3
    then show ?thesis unfolding fm using h by blast
  next
    case 4
    then show ?thesis unfolding fm using h by blast
  next
    case 5
    then show ?thesis unfolding fm using h by blast
  next
    case 6
    then show ?thesis unfolding fm using h by blast
  qed
  then show "x \<in> set (concat (map concat [hd a, last a, map hd a, map last a, map (map hd) a, map (map last) a]))"
    unfolding in_six_lists .
qed


lemma wf3_abs3: "wf3 a \<Longrightarrow> wf3 (abs3 a)"
  by (auto simp add: wf3_def abs3_def list_all_iff)

lemma nonneg_fabs: "isfinite x \<Longrightarrow> nonneg (fabs x)"
  by (cases x) (simp_all add: nonneg_def)

lemma nonneg_abs3:
  assumes "all_finite a"
  shows "\<forall>x\<in>set (concat (concat (abs3 a))). nonneg x"
  using assms by (auto simp add: all_finite_def abs3_def list_all_iff nonneg_fabs)

lemma concat_nonempty: "p \<noteq> [] \<Longrightarrow> \<forall>r\<in>set p. r \<noteq> [] \<Longrightarrow> concat p \<noteq> []"
  by (cases p) auto

lemma faces_nonempty:
  assumes "wf3 a"
    and "f \<in> set [hd a, last a, map hd a, map last a, map (map hd) a, map (map last) a]"
  shows "concat f \<noteq> []"
proof -
  have a: "a \<noteq> []" and p: "\<forall>p\<in>set a. p \<noteq> []" and r: "\<forall>p\<in>set a. \<forall>r\<in>set p. r \<noteq> []"
    using assms(1) by (auto simp add: wf3_def list_all_iff)
  have h: "hd a \<in> set a" "last a \<in> set a" using a by simp_all
  have hp: "hd q \<in> set q" "last q \<in> set q" if "q \<in> set a" for q using p that by simp_all
  consider "f = hd a" | "f = last a" | "f = map hd a" | "f = map last a"
    | "f = map (map hd) a" | "f = map (map last) a"
    using assms(2) by auto
  then show ?thesis
  proof cases
    case 1 then show ?thesis using h(1) p r by (intro concat_nonempty) auto
  next
    case 2 then show ?thesis using h(2) p r by (intro concat_nonempty) auto
  next
    case 3 then show ?thesis using a r hp(1) by (intro concat_nonempty) auto
  next
    case 4 then show ?thesis using a r hp(2) by (intro concat_nonempty) auto
  next
    case 5 then show ?thesis using a p by (intro concat_nonempty) auto
  next
    case 6 then show ?thesis using a p by (intro concat_nonempty) auto
  qed
qed

lemma edge_max_boundary:
  assumes w: "wf3 A" and n: "\<forall>x\<in>set (concat (concat A)). nonneg x"
  shows "edge_max A = Inr (greatest (boundary_values A))"
proof -
  let ?fs = "[hd A, last A, map hd A, map last A, map (map hd) A, map (map last) A]"
  have nb: "\<forall>x\<in>set (boundary_values A). nonneg x"
    using n all_values_split [of A] by blast+
  have sub: "set (concat f) \<subseteq> set (boundary_values A)" if "f \<in> set ?fs" for f
  proof
    fix x assume "x \<in> set (concat f)"
    then have "x \<in> set (concat (map concat ?fs))" using that by (auto simp del: set_concat)
    then show "x \<in> set (boundary_values A)" unfolding faces_boundary_set [OF w, symmetric] .
  qed
  have nf: "\<forall>x\<in>set (concat f). nonneg x" if "f \<in> set ?fs" for f
    using sub [OF that] nb by blast
  have m: "np_max (concat f) = Inr (greatest (concat f))" if "f \<in> set ?fs" for f
    by (rule np_max_greatest [OF faces_nonempty [OF w that] nf [OF that]])
  have ms: "mapE (\<lambda>f. np_max (concat f)) ?fs = Inr (map (\<lambda>f. greatest (concat f)) ?fs)"
    by (rule mapE_all_Inr) (use m in blast)
  have ng: "\<forall>x\<in>set (map (\<lambda>f. greatest (concat f)) ?fs). nonneg x"
  proof
    fix x assume "x \<in> set (map (\<lambda>f. greatest (concat f)) ?fs)"
    then obtain f where f: "f \<in> set ?fs" "x = greatest (concat f)" by auto
    show "nonneg x" unfolding f(2) by (rule nonneg_greatest(1) [OF nf [OF f(1)]])
  qed
  have g1: "np_max (map (\<lambda>f. greatest (concat f)) ?fs) = Inr (greatest (map (\<lambda>f. greatest (concat f)) ?fs))"
    by (rule np_max_greatest [OF _ ng]) simp
  have g2: "map (\<lambda>f. greatest (concat f)) ?fs = map greatest (map concat ?fs)" by simp
  have g3: "greatest (map greatest (map concat ?fs)) = greatest (concat (map concat ?fs))"
  proof (rule greatest_concat, intro ballI)
    fix l x assume l: "l \<in> set (map concat ?fs)" and x: "x \<in> set l"
    from l obtain f where f: "f \<in> set ?fs" "l = concat f"
      unfolding set_map image_iff by blast
    show "nonneg x" using nf [OF f(1)] x unfolding f(2) by blast
  qed
  have g4: "greatest (concat (map concat ?fs)) = greatest (boundary_values A)"
    by (rule greatest_cong_set [OF nb faces_boundary_set [OF w]])
  have "greatest (map (\<lambda>f. greatest (concat f)) ?fs) = greatest (boundary_values A)"
    unfolding g2 g3 g4 ..
  then have e: "np_max (map (\<lambda>f. greatest (concat f)) ?fs) = Inr (greatest (boundary_values A))"
    using g1 by (simp only:)
  show ?thesis
    unfolding edge_max_def faces_wf3 [OF w] ebind_simps ms e ..
qed

lemma whole_max:
  assumes w: "wf3 A" and n: "\<forall>x\<in>set (concat (concat A)). nonneg x"
  shows "\<exists>m. np_max (concat (concat A)) = Inr (Fin m) \<and>
             m = max (val (greatest (boundary_values A))) (val (greatest (interior_values A)))"
proof -
  have nb: "\<forall>x\<in>set (boundary_values A). nonneg x" and ni: "\<forall>x\<in>set (interior_values A). nonneg x"
    using n all_values_split [of A] by blast+
  have a: "A \<noteq> []" "\<forall>p\<in>set A. p \<noteq> []" "\<forall>p\<in>set A. \<forall>r\<in>set p. r \<noteq> []"
    using w by (auto simp add: wf3_def list_all_iff)
  have "concat A \<noteq> []" using a by (intro concat_nonempty) auto
  moreover have "\<forall>r\<in>set (concat A). r \<noteq> []" using a by auto
  ultimately have ne: "concat (concat A) \<noteq> []" by (rule concat_nonempty)
  have nba: "\<forall>x\<in>set (boundary_values A @ interior_values A). nonneg x" using nb ni by auto
  have "greatest (concat (concat A)) = greatest (boundary_values A @ interior_values A)"
    by (rule greatest_cong_set [OF nba]) (simp only: set_append all_values_split)
  then have "val (greatest (concat (concat A))) =
        max (val (greatest (boundary_values A))) (val (greatest (interior_values A)))"
    using greatest_append [OF nb ni] by simp
  moreover have "greatest (concat (concat A)) = Fin (val (greatest (concat (concat A))))"
    using nonneg_greatest(1) [OF n] nonneg_Fin by fastforce
  ultimately show ?thesis using np_max_greatest [OF ne n] by simp
qed

lemma round_half_even_bounds:
  assumes "0 \<le> q"
  shows "0 \<le> round_half_even q" "of_int (round_half_even q) \<le> 2 * q"
proof -
  let ?f = "\<lfloor>q\<rfloor>" and ?d = "q - of_int \<lfloor>q\<rfloor>"
  have f0: "0 \<le> ?f" using assms by simp
  have d: "0 \<le> ?d" "?d < 1" by linarith+
  show "0 \<le> round_half_even q"
    using f0 by (simp add: round_half_even_def Let_def)
  show "of_int (round_half_even q) \<le> 2 * q"
  proof (cases "?d < 1 / 2")
    case True
    then have "round_half_even q = ?f" by (simp add: round_half_even_def Let_def)
    then show ?thesis using assms d by linarith
  next
    case False
    then have h: "1 / 2 \<le> ?d" by simp
    have "round_half_even q \<le> ?f + 1" by (simp add: round_half_even_def Let_def)
    then have "of_int (round_half_even q) \<le> of_int ?f + (1::real)" by linarith
    moreover have "of_int ?f + 1 \<le> 2 * q" using h f0 by linarith
    ultimately show ?thesis by linarith
  qed
qed


lemma round64_small:
  assumes "0 \<le> z" "2 * z \<le> float_max"
  shows "\<exists>r. round64 z = Fin r \<and> 0 \<le> r \<and> r \<le> 2 * z"
proof -
  let ?s = "(2::real) powi ulp_exponent z"
  let ?k = "round_half_even (z / ?s)"
  have s: "0 < ?s" by (simp add: zero_less_power_int)
  then have q: "0 \<le> z / ?s" using assms(1) by simp
  have k: "0 \<le> ?k" "of_int ?k \<le> 2 * (z / ?s)"
    using round_half_even_bounds [OF q] by simp_all
  have r0: "0 \<le> of_int ?k * ?s" using k(1) s by simp
  have "of_int ?k * ?s \<le> 2 * (z / ?s) * ?s"
    using k(2) s by (intro mult_right_mono) simp_all
  then have r1: "of_int ?k * ?s \<le> 2 * z" using s by simp
  then have "\<not> float_max < \<bar>of_int ?k * ?s\<bar>" using r0 assms(2) by linarith
  then have "round64 z = Fin (of_int ?k * ?s)" by (simp add: round64_def Let_def)
  then show ?thesis using r0 r1 by blast
qed

lemma double_1e_3_bounds: "0 < double_1e_3" "2 * double_1e_3 < 1"
  by (simp_all add: double_1e_3_def)

lemma fgt_Fin: "fgt (Fin a) (Fin b) \<longleftrightarrow> b < a"
  by (simp add: fgt_def)

lemma threshold_product:
  assumes "0 \<le> y" "y \<le> x" "0 < x" "x \<le> float_max"
  shows "fgt (Fin x) (fmul64 (Fin double_1e_3) (Fin y))"
proof -
  have a: "0 \<le> double_1e_3 * y" using assms(1) double_1e_3_bounds(1) by simp
  have "2 * double_1e_3 * y \<le> 2 * double_1e_3 * x"
    using assms(2) double_1e_3_bounds(1) by simp
  also have "\<dots> < 1 * x" using assms(3) double_1e_3_bounds(2) by (intro mult_strict_right_mono)
  finally have b: "2 * (double_1e_3 * y) < x" by simp
  then have "2 * (double_1e_3 * y) \<le> float_max" using assms(4) by linarith
  from round64_small [OF a this]
  obtain r where r: "round64 (double_1e_3 * y) = Fin r" "r \<le> 2 * (double_1e_3 * y)" by blast
  then have "r < x" using b by linarith
  then show ?thesis by (simp add: fmul64_def r(1) fgt_Fin)
qed

lemma threshold_whole_or_interior:
  assumes "0 \<le> B" "0 \<le> I" "B \<le> float_max"
  shows "fgt (Fin B) (fmul64 (Fin double_1e_3) (Fin (max B I))) \<longleftrightarrow>
         fgt (Fin B) (fmul64 (Fin double_1e_3) (Fin I))"
proof (cases "B \<le> I")
  case True
  then show ?thesis by (simp add: max_def)
next
  case False
  then have b: "0 < B" "I \<le> B" using assms(2) by linarith+
  have "fgt (Fin B) (fmul64 (Fin double_1e_3) (Fin B))"
    by (rule threshold_product) (use b assms in simp_all)
  moreover have "fgt (Fin B) (fmul64 (Fin double_1e_3) (Fin I))"
    by (rule threshold_product [OF assms(2) b(2) b(1) assms(3)])
  ultimately show ?thesis using b(2) by (simp add: max_def)
qed

lemma bitlen_binade:
  assumes "2 ^ n \<le> m" "m < 2 ^ Suc n"
  shows "bitlen m = int n + 1"
proof -
  have m: "0 < m" using assms(1) by (smt (verit) zero_less_power)
  note b = bitlen_bounds [OF m]
  have p: "0 \<le> bitlen m - 1" using m by (auto simp: bitlen_alt_def)
  have "(2::int) ^ nat (bitlen m - 1) < 2 ^ Suc n" using b assms(2) by linarith
  then have 1: "nat (bitlen m - 1) < Suc n" by (rule power_less_imp_less_exp [rotated]) simp
  have "(2::int) ^ n < 2 ^ nat (bitlen m)" using b assms(1) by linarith
  then have 2: "n < nat (bitlen m)" by (rule power_less_imp_less_exp [rotated]) simp
  show ?thesis using 1 2 p by linarith
qed

lemma ulp_exponent_double_1e_3: "ulp_exponent double_1e_3 = - 62"
proof -
  have "\<bar>double_1e_3\<bar> * 2 ^ 1074 = of_int (1152921504606847 * 2 ^ 1014)"
    by (simp add: double_1e_3_def)
  then have f: "\<lfloor>\<bar>double_1e_3\<bar> * 2 ^ 1074\<rfloor> = 1152921504606847 * 2 ^ 1014"
    by (simp only: floor_of_int)
  have "bitlen (1152921504606847 :: int) = int 50 + 1"
    by (rule bitlen_binade) simp_all
  moreover have "bitlen (1152921504606847 * 2 ^ 1014) = bitlen 1152921504606847 + int 1014"
    by (rule bitlen_pow2) simp
  ultimately have "bitlen (1152921504606847 * 2 ^ 1014) = 1065" by simp
  then show ?thesis unfolding ulp_exponent_def f by simp
qed

lemma round64_double_1e_3: "round64 double_1e_3 = Fin double_1e_3"
proof -
  have q: "double_1e_3 / 2 powi (- 62) = of_int 4611686018427388"
    by (simp add: double_1e_3_def power_int_minus)
  have k: "round_half_even (double_1e_3 / 2 powi (- 62)) = 4611686018427388"
    unfolding q by (simp add: round_half_even_def Let_def)
  have r: "of_int 4611686018427388 * 2 powi (- 62) = double_1e_3"
    by (simp add: double_1e_3_def power_int_minus)
  have "\<not> float_max < \<bar>double_1e_3\<bar>"
    using double_1e_3_bounds by (simp add: float_max_def)
  then show ?thesis
    unfolding round64_def Let_def ulp_exponent_double_1e_3 k r by simp
qed

lemma greatest_le:
  assumes "\<forall>a\<in>set xs. nonneg a" "\<forall>a\<in>set xs. val a \<le> M" "0 \<le> M"
  shows "val (greatest xs) \<le> M"
  unfolding nonneg_greatest(2) [OF assms(1)] using assms(2,3) by simp

lemma in_range_abs3:
  assumes "in_range a"
  shows "\<forall>x\<in>set (concat (concat (abs3 a))). val x \<le> float_max"
proof -
  have "val (fabs x) \<le> float_max" if "\<bar>val x\<bar> \<le> float_max" for x
    using that by (cases x) (simp_all add: float_max_def)
  then show ?thesis
    using assms by (auto simp add: in_range_def abs3_def list_all_iff)
qed

text \<open>
  The check of one finite quantity issues exactly the warning of the specification: the
  maximum over the whole array is the larger of the boundary and the interior maximum,
  and comparing the boundary maximum with the rounded product of \<open>1e-3\<close> and either
  gives the same answer.
\<close>
lemma check_quantity_finite:
  assumes q: "quantities g rq = Some a" and w: "wf3 a \<and> in_range a" and f: "all_finite a"
  shows "\<exists>r. check_quantity g rq = Inr r \<and>
             (case r of None \<Rightarrow> [] | Some w' \<Rightarrow> [w']) = stability_warning g rq"
proof -
  let ?A = "abs3 a"
  note wA = wf3_abs3 [OF w [THEN conjunct1]] and nA = nonneg_abs3 [OF f]
    and rA = in_range_abs3 [OF w [THEN conjunct2]]
  have nb: "\<forall>x\<in>set (boundary_values ?A). nonneg x" and ni: "\<forall>x\<in>set (interior_values ?A). nonneg x"
    using nA all_values_split [of ?A] by blast+
  obtain B where B: "boundary_max a = Fin B" "0 \<le> B"
    using nonneg_greatest(1) [OF nb] nonneg_Fin unfolding boundary_max_def by blast
  obtain I where I: "interior_max a = Fin I" "0 \<le> I"
    using nonneg_greatest(1) [OF ni] nonneg_Fin unfolding interior_max_def by blast
  have em: "edge_max ?A = Inr (Fin B)"
    using edge_max_boundary [OF wA nA] B(1) by (simp add: boundary_max_def)
  obtain m where m: "np_max (concat (concat ?A)) = Inr (Fin m)" "m = max B I"
    using whole_max [OF wA nA] B(1) I(1) by (auto simp add: boundary_max_def interior_max_def)
  have rb: "\<forall>x\<in>set (boundary_values ?A). val x \<le> float_max"
    using rA all_values_split [of ?A] by blast
  have "val (greatest (boundary_values ?A)) \<le> float_max"
    by (rule greatest_le [OF nb rb]) (simp add: float_max_def)
  then have Bm: "B \<le> float_max" using B(1) by (simp add: boundary_max_def)
  have c: "fgt (Fin B) (fmul64 (Fin double_1e_3) (Fin m)) \<longleftrightarrow>
           fgt (Fin B) (fmul64 (Fin double_1e_3) (Fin I))"
    unfolding m(2) by (rule threshold_whole_or_interior [OF B(2) I(2) Bm])
  have "check_quantity g rq =
          Inr (if fgt (Fin B) (fmul64 (Fin double_1e_3) (Fin I)) then Some (rq, Fin B) else None)"
    unfolding check_quantity_def q Let_def using f c by (simp add: em m(1))
  moreover have "stability_warning g rq =
          (if fgt (Fin B) (fmul64 (Fin double_1e_3) (Fin I)) then [(rq, Fin B)] else [])"
    by (simp add: stability_warning_def q B(1) I(1))
  ultimately show ?thesis by simp
qed

lemma check_quantity_nonfinite:
  assumes "quantities g rq = Some a" "\<not> all_finite a"
  shows "check_quantity g rq = Inl ValueError"
  using assms by (simp add: check_quantity_def)


lemma check_quantities_finite:
  assumes "\<forall>rq\<in>set rqs. \<exists>a. quantities g rq = Some a \<and> (wf3 a \<and> in_range a) \<and> all_finite a"
  shows "check_quantities g rqs = (concat (map (stability_warning g) rqs), Inr ())"
  using assms
proof (induction rqs)
  case Nil
  then show ?case by simp
next
  case (Cons rq rqs)
  then obtain a where a: "quantities g rq = Some a" "wf3 a \<and> in_range a" "all_finite a" by auto
  obtain r where r: "check_quantity g rq = Inr r"
    "(case r of None \<Rightarrow> [] | Some w' \<Rightarrow> [w']) = stability_warning g rq"
    using check_quantity_finite [OF a] by blast
  have "check_quantities g rqs = (concat (map (stability_warning g) rqs), Inr ())"
    using Cons by simp
  then show ?case by (simp add: r)
qed

lemma check_quantities_nonfinite:
  assumes "\<forall>rq\<in>set rqs. \<exists>a. quantities g rq = Some a \<and> (wf3 a \<and> in_range a)"
    and "\<exists>rq\<in>set rqs. \<exists>a. quantities g rq = Some a \<and> \<not> all_finite a"
  shows "snd (check_quantities g rqs) = Inl ValueError"
  using assms
proof (induction rqs)
  case Nil
  then show ?case by simp
next
  case (Cons rq rqs)
  then obtain a where a: "quantities g rq = Some a" "wf3 a \<and> in_range a" by auto
  show ?case
  proof (cases "all_finite a")
    case False
    then show ?thesis using check_quantity_nonfinite [OF a(1)] by simp
  next
    case True
    obtain r where r: "check_quantity g rq = Inr r"
      using check_quantity_finite [OF a True] by blast
    have "\<exists>rq\<in>set rqs. \<exists>a. quantities g rq = Some a \<and> \<not> all_finite a"
      using Cons.prems(2) a(1) True by auto
    then have "snd (check_quantities g rqs) = Inl ValueError"
      using Cons by simp
    then show ?thesis by (simp add: r case_prod_beta)
  qed
qed

lemma validate_grids_finite:
  assumes "list_all2 (\<lambda>g g'. rqf g (Some rqs) = Inr g') gs gs'"
    and "\<forall>g'\<in>set gs'. \<forall>rq\<in>set rqs. \<exists>a. quantities g' rq = Some a \<and> (wf3 a \<and> in_range a) \<and> all_finite a"
  shows "validate_grids rqf (Some rqs) gs =
           (concat (map (\<lambda>g'. concat (map (stability_warning g') rqs)) gs'), Inr gs')"
  using assms
proof (induction gs gs' rule: list_all2_induct)
  case Nil
  then show ?case by simp
next
  case (Cons g gs g' gs')
  have "check_quantities g' rqs = (concat (map (stability_warning g') rqs), Inr ())"
    using Cons.prems by (intro check_quantities_finite) simp
  moreover have "validate_grids rqf (Some rqs) gs =
           (concat (map (\<lambda>g'. concat (map (stability_warning g') rqs)) gs'), Inr gs')"
    using Cons by simp
  ultimately show ?case using Cons.hyps(1) by simp
qed

lemma validate_grids_nonfinite:
  assumes "list_all2 (\<lambda>g g'. rqf g (Some rqs) = Inr g') gs gs'"
    and "\<forall>g'\<in>set gs'. \<forall>rq\<in>set rqs. \<exists>a. quantities g' rq = Some a \<and> (wf3 a \<and> in_range a)"
    and "\<exists>g'\<in>set gs'. \<exists>rq\<in>set rqs. \<exists>a. quantities g' rq = Some a \<and> \<not> all_finite a"
  shows "snd (validate_grids rqf (Some rqs) gs) = Inl ValueError"
  using assms
proof (induction gs gs' rule: list_all2_induct)
  case Nil
  then show ?case by simp
next
  case (Cons g gs g' gs')
  have w: "\<forall>rq\<in>set rqs. \<exists>a. quantities g' rq = Some a \<and> (wf3 a \<and> in_range a)" using Cons.prems(1) by simp
  show ?case
  proof (cases "\<exists>rq\<in>set rqs. \<exists>a. quantities g' rq = Some a \<and> \<not> all_finite a")
    case True
    have "snd (check_quantities g' rqs) = Inl ValueError"
      by (rule check_quantities_nonfinite [OF w True])
    then show ?thesis
      using Cons.hyps(1) by (cases "check_quantities g' rqs") simp
  next
    case False
    then have "\<forall>rq\<in>set rqs. \<exists>a. quantities g' rq = Some a \<and> (wf3 a \<and> in_range a) \<and> all_finite a"
      using w by fastforce
    then have c: "check_quantities g' rqs = (concat (map (stability_warning g') rqs), Inr ())"
      by (rule check_quantities_finite)
    have "\<exists>g'\<in>set gs'. \<exists>rq\<in>set rqs. \<exists>a. quantities g' rq = Some a \<and> \<not> all_finite a"
      using Cons.prems(2) False by auto
    then have "snd (validate_grids rqf (Some rqs) gs) = Inl ValueError"
      using Cons by simp
    then show ?thesis
      using Cons.hyps(1) c by (cases "validate_grids rqf (Some rqs) gs") simp
  qed
qed

text \<open>
  Claim C7, as amended. Let \<open>grids\<close> be one grid or a collection of grids, let
  \<open>require_quantities\<close> return normally for every grid and let every required quantity
  be present as a well-formed array of doubles. If all these arrays are finite,
  construction completes and returns the tracker, and the warnings issued are, grid by
  grid and quantity by quantity, exactly those of \<open>stability_warning\<close>: one for each
  quantity whose largest absolute value on the six boundary faces exceeds the rounded
  product of \<open>1e-3\<close> and its interior maximum, and none for the others. If one of the
  arrays has a non-finite entry, construction raises \<open>ValueError\<close>. (The source
  compares the edge maximum with the rounded product of \<open>1e-3\<close> and the maximum over
  the whole array, which is the same condition.)
\<close>
theorem stability_warning_and_finiteness:
  assumes "grids = AGrid g0 \<and> gs = [g0] \<or> grids = GridSequence gs"
    and "list_all2 (\<lambda>g g'. rqf g (Some rqs) = Inr g') gs gs'"
    and "\<forall>g'\<in>set gs'. \<forall>rq\<in>set rqs. \<exists>a. quantities g' rq = Some a \<and> (wf3 a \<and> in_range a)"
  shows "((\<forall>g'\<in>set gs'. \<forall>rq\<in>set rqs. \<forall>a. quantities g' rq = Some a \<longrightarrow> all_finite a) \<longrightarrow>
            init rqf grids (Some rqs) verbose =
              (concat (map (\<lambda>g'. concat (map (stability_warning g') rqs)) gs'),
               Inr (Tracker (new_tracker gs' verbose)))) \<and>
         ((\<exists>g'\<in>set gs'. \<exists>rq\<in>set rqs. \<exists>a. quantities g' rq = Some a \<and> \<not> all_finite a) \<longrightarrow>
            snd (init rqf grids (Some rqs) verbose) = Inl ValueError)"
proof -
  have i: "init rqf grids (Some rqs) verbose =
        (case validate_grids rqf (Some rqs) gs of
                (ws, Inl e) \<Rightarrow> (ws, Inl e)
              | (ws, Inr gs') \<Rightarrow> (ws, Inr (Tracker (new_tracker gs' verbose))))"
    using assms(1) by (auto simp add: init_def construct_def)
  have 1: "init rqf grids (Some rqs) verbose =
              (concat (map (\<lambda>g'. concat (map (stability_warning g') rqs)) gs'),
               Inr (Tracker (new_tracker gs' verbose)))"
    if "\<forall>g'\<in>set gs'. \<forall>rq\<in>set rqs. \<forall>a. quantities g' rq = Some a \<longrightarrow> all_finite a"
  proof -
    have "\<forall>g'\<in>set gs'. \<forall>rq\<in>set rqs.
            \<exists>a. quantities g' rq = Some a \<and> (wf3 a \<and> in_range a) \<and> all_finite a"
      using assms(3) that by fastforce
    then have "validate_grids rqf (Some rqs) gs =
           (concat (map (\<lambda>g'. concat (map (stability_warning g') rqs)) gs'), Inr gs')"
      using assms(2) by (intro validate_grids_finite)
    then show ?thesis unfolding i by simp
  qed
  have 2: "snd (init rqf grids (Some rqs) verbose) = Inl ValueError"
    if "\<exists>g'\<in>set gs'. \<exists>rq\<in>set rqs. \<exists>a. quantities g' rq = Some a \<and> \<not> all_finite a"
  proof -
    have "snd (validate_grids rqf (Some rqs) gs) = Inl ValueError"
      using assms(2,3) that by (intro validate_grids_nonfinite [where gs' = gs'])
    then show ?thesis
      unfolding i by (cases "validate_grids rqf (Some rqs) gs") auto
  qed
  show ?thesis using 1 2 by blast
qed


lemmas array_eval = boundary_max_def interior_max_def boundary_values_def interior_values_def
  cells_def on_edge_def value_at_def abs3_def greatest_def np_maximum_def

lemma peak_array_maxima: "boundary_max peak_array = Fin 0" "interior_max peak_array = Fin 1"
  by (simp_all add: array_eval peak_array_def eval_nat_numeral)

lemma flat_array_maxima: "boundary_max flat_array = Fin 1" "interior_max flat_array = Fin 1"
  by (simp_all add: array_eval flat_array_def eval_nat_numeral)

lemma double_1e_3_less_1: "double_1e_3 < 1"
  using double_1e_3_bounds by linarith

lemma threshold_array_maxima:
  "boundary_max threshold_array = Fin double_1e_3" "interior_max threshold_array = Fin 1"
  using double_1e_3_bounds(1) double_1e_3_less_1
  by (simp_all add: array_eval threshold_array_def Let_def eval_nat_numeral)

lemma example_arrays_wf:
  "wf3 peak_array" "wf3 flat_array" "wf3 nan_array" "wf3 threshold_array"
  by (simp_all add: wf3_def peak_array_def flat_array_def nan_array_def threshold_array_def Let_def)

lemma float_max_ge_1: "1 \<le> float_max"
proof -
  have "(1::real) \<le> 2 ^ 1023" by (rule one_le_power) simp
  moreover have "(1::real) \<le> 2 - 1 / 2 ^ 52" by simp
  ultimately have "1 * 1 \<le> (2 - 1 / 2 ^ 52) * (2::real) ^ 1023"
    by (intro mult_mono) simp_all
  then show ?thesis by (simp add: float_max_def)
qed

lemma example_arrays_in_range:
  "in_range peak_array" "in_range flat_array" "in_range nan_array" "in_range threshold_array"
  using float_max_ge_1 double_1e_3_bounds(1) double_1e_3_less_1
  by (simp_all add: in_range_def peak_array_def flat_array_def nan_array_def threshold_array_def
        Let_def)

lemma example_arrays_finite:
  "all_finite peak_array" "all_finite flat_array" "\<not> all_finite nan_array"
  "all_finite threshold_array"
  by (simp_all add: all_finite_def peak_array_def flat_array_def nan_array_def
        threshold_array_def Let_def)

lemma field_grid_quantities:
  "quantities field_grid ''E_x'' = Some peak_array"
  "quantities field_grid ''B_z'' = Some flat_array"
  "quantities nan_grid ''E_x'' = Some nan_array"
  "quantities threshold_grid ''E_x'' = Some threshold_array"
  by (simp_all add: field_grid_def nan_grid_def threshold_grid_def)

lemma product_with_one: "fmul64 (Fin double_1e_3) (Fin 1) = Fin double_1e_3"
  by (simp add: fmul64_def round64_double_1e_3)

lemma field_grid_warnings:
  "stability_warning field_grid ''E_x'' = []"
  "stability_warning field_grid ''B_z'' = [(''B_z'', Fin 1)]"
  "stability_warning threshold_grid ''E_x'' = []"
  using double_1e_3_bounds(1) double_1e_3_less_1
  by (simp_all add: stability_warning_def field_grid_quantities peak_array_maxima
        flat_array_maxima threshold_array_maxima product_with_one fgt_Fin)

text \<open>
  Witness for C7 as amended: a grid with a quantity that vanishes on the boundary (no
  warning) and one that is 1 everywhere (a warning), and a grid with a quantity that is
  NaN.
\<close>
theorem stability_warning_and_finiteness_witness:
  "init accept_grid (AGrid field_grid) (Some [''E_x'', ''B_z'']) True
     = ([(''B_z'', Fin 1)], Inr (Tracker (new_tracker [field_grid] True))) \<and>
   snd (init accept_grid (GridSequence [field_grid, nan_grid]) (Some [''E_x'']) True)
     = Inl ValueError"
proof -
  have g1: "AGrid field_grid = AGrid field_grid \<and> [field_grid] = [field_grid] \<or>
            AGrid field_grid = GridSequence [field_grid]" by simp
  have l1: "list_all2 (\<lambda>g g'. accept_grid g (Some [''E_x'', ''B_z'']) = Inr g')
              [field_grid] [field_grid]"
    by (simp add: accept_grid_def)
  have w1: "\<forall>g'\<in>set [field_grid]. \<forall>rq\<in>set [''E_x'', ''B_z''].
              \<exists>a. quantities g' rq = Some a \<and> (wf3 a \<and> in_range a)"
    by (simp add: field_grid_quantities example_arrays_wf example_arrays_in_range)
  have f1: "\<forall>g'\<in>set [field_grid]. \<forall>rq\<in>set [''E_x'', ''B_z''].
              \<forall>a. quantities g' rq = Some a \<longrightarrow> all_finite a"
    by (simp add: field_grid_quantities example_arrays_finite)
  have a: "init accept_grid (AGrid field_grid) (Some [''E_x'', ''B_z'']) True
     = ([(''B_z'', Fin 1)], Inr (Tracker (new_tracker [field_grid] True)))"
    using stability_warning_and_finiteness [where grids = "AGrid field_grid" and ?g0.0 = field_grid
        and gs = "[field_grid]" and rqf = accept_grid and rqs = "[''E_x'', ''B_z'']"
        and gs' = "[field_grid]" and verbose = True, OF g1 l1 w1] f1
    by (simp add: field_grid_warnings)
  have g2: "GridSequence [field_grid, nan_grid] = AGrid field_grid \<and>
              [field_grid, nan_grid] = [field_grid] \<or>
            GridSequence [field_grid, nan_grid] = GridSequence [field_grid, nan_grid]" by simp
  have l2: "list_all2 (\<lambda>g g'. accept_grid g (Some [''E_x'']) = Inr g')
              [field_grid, nan_grid] [field_grid, nan_grid]"
    by (simp add: accept_grid_def)
  have w2: "\<forall>g'\<in>set [field_grid, nan_grid]. \<forall>rq\<in>set [''E_x''].
              \<exists>a. quantities g' rq = Some a \<and> (wf3 a \<and> in_range a)"
    by (simp add: field_grid_quantities example_arrays_wf example_arrays_in_range)
  have n2: "\<exists>g'\<in>set [field_grid, nan_grid]. \<exists>rq\<in>set [''E_x''].
              \<exists>a. quantities g' rq = Some a \<and> \<not> all_finite a"
    by (simp add: field_grid_quantities example_arrays_finite)
  have b: "snd (init accept_grid (GridSequence [field_grid, nan_grid]) (Some [''E_x'']) True)
             = Inl ValueError"
    using stability_warning_and_finiteness [where grids = "GridSequence [field_grid, nan_grid]"
        and ?g0.0 = field_grid and gs = "[field_grid, nan_grid]" and rqf = accept_grid
        and rqs = "[''E_x'']" and gs' = "[field_grid, nan_grid]" and verbose = True,
        OF g2 l2 w2] n2 by blast
  show ?thesis using a b by simp
qed

lemma check_threshold_grid: "check_quantity threshold_grid ''E_x'' = Inr None"
proof -
  have w: "wf3 threshold_array \<and> in_range threshold_array"
    by (simp add: example_arrays_wf example_arrays_in_range)
  from check_quantity_finite [OF field_grid_quantities(4) w example_arrays_finite(4)]
  obtain r where r: "check_quantity threshold_grid ''E_x'' = Inr r"
    "(case r of None \<Rightarrow> [] | Some w' \<Rightarrow> [w']) = stability_warning threshold_grid ''E_x''"
    by blast
  then have "r = None" by (cases r) (simp_all add: field_grid_warnings)
  then show ?thesis using r(1) by simp
qed

text \<open>
  Counterexample to C7 as stated. On \<open>threshold_array\<close> the boundary maximum, the
  double \<open>1e-3\<close>, exceeds 0.1% of the interior maximum 1, yet no warning is issued:
  the product \<open>1e-3 * 1.0\<close> is the double \<open>1e-3\<close> itself, which the boundary maximum
  does not exceed. And with the grids passed as an iterator, a required quantity that is
  NaN does not make construction fail: the validation loop finds the iterator spent.
\<close>
theorem threshold_and_iterator_counterexample:
  "val (interior_max threshold_array) / 1000 < val (boundary_max threshold_array) \<and>
   init accept_grid (AGrid threshold_grid) (Some [''E_x'']) True
     = ([], Inr (Tracker (new_tracker [threshold_grid] True))) \<and>
   quantities nan_grid ''E_x'' = Some nan_array \<and> \<not> all_finite nan_array \<and>
   init accept_grid (GridIterator [nan_grid]) (Some [''E_x'']) True
     = ([], Inr (SpentIterator True))"
proof -
  have a: "val (interior_max threshold_array) / 1000 < val (boundary_max threshold_array)"
    by (simp add: threshold_array_maxima double_1e_3_def)
  have b: "init accept_grid (AGrid threshold_grid) (Some [''E_x'']) True
     = ([], Inr (Tracker (new_tracker [threshold_grid] True)))"
    by (simp add: init_def construct_def accept_grid_def check_threshold_grid)
  have c: "init accept_grid (GridIterator [nan_grid]) (Some [''E_x'']) True
     = ([], Inr (SpentIterator True))"
    by (simp add: init_def)
  show ?thesis using a b c field_grid_quantities(3) example_arrays_finite(3) by simp
qed

end
